theory Spec2Isabelle
  imports Complex_Main "HOL-Library.Sublist" "HOL-Library.Multiset"
begin

section \<open>Shallow embedding of backend/main.py\<close>

text \<open>
  The service is one Python module. Each function the properties below are about is
  translated here: pure helpers as HOL functions, raised exceptions as the left summand
  of a sum type, the module-level dictionary \<open>upload_history\<close> as a map that is passed in
  and returned, and the collaborators that are not part of the module (the classifier
  artefact, the upstream HTTP services, the clock) as parameters.

  Python strings are modelled as \<open>string\<close>; characters are restricted to the 8-bit range,
  on which \<open>is_space\<close> is exactly Python's notion of white space. A Python float that the
  module compares (the request timeout) is a \<open>pyfloat\<close>, with the infinities and NaN; the
  floats it only passes on or sorts (traffic values, relevance scores) and the clock are
  modelled as \<open>real\<close>.
\<close>

subsection \<open>Constants\<close>

definition MAX_CHUNK_SIZE :: int where
  "MAX_CHUNK_SIZE = 400"

definition DEFAULT_TIMEOUT :: real where
  "DEFAULT_TIMEOUT = 30"

definition MAX_TIMEOUT :: real where
  "MAX_TIMEOUT = 55"

definition MAX_RETRIES :: nat where
  "MAX_RETRIES = 3"

text \<open>
  \<open>make_api_request\<close> reads a global \<open>REQUEST_TIMEOUT\<close>, but the module never binds that
  name (its only occurrence is the use), so reading it raises \<open>NameError\<close>. A global is
  modelled as an optional value, \<open>None\<close> for a name that is not bound; the functions that
  read it take it as their first argument, and \<open>REQUEST_TIMEOUT\<close> is its value in the
  module as it stands.
\<close>

definition REQUEST_TIMEOUT :: "real option" where
  "REQUEST_TIMEOUT = None"

subsection \<open>Floats and JSON values\<close>

text \<open>
  A Python float is a number, an infinity or NaN; \<open>a < b\<close> is false whenever one side is
  NaN.
\<close>

datatype pyfloat = Finite real | PosInf | NegInf | NaN

fun float_lt :: "pyfloat \<Rightarrow> pyfloat \<Rightarrow> bool" where
  "float_lt NaN b = False"
| "float_lt a NaN = False"
| "float_lt (Finite x) (Finite y) = (x < y)"
| "float_lt (Finite x) PosInf = True"
| "float_lt (Finite x) NegInf = False"
| "float_lt NegInf NegInf = False"
| "float_lt NegInf b = True"
| "float_lt PosInf b = False"

text \<open>
  A decoded JSON value. \<open>JInt\<close> is a number written without fraction or exponent, which
  Python reads as an \<open>int\<close>; \<open>JNum\<close> is any other number, read as a float.
\<close>

datatype json =
    JNull
  | JBool bool
  | JInt int
  | JNum real
  | JStr string
  | JList "json list"
  | JObj "(string \<times> json) list"

subsection \<open>Exceptions\<close>

text \<open>
  \<open>HTTPException\<close> is FastAPI's exception with its status code and detail. A detail is
  a fixed text, or an f-string \<open>f"prefix{str(e)}"\<close> about a caught exception \<open>e\<close>, kept as
  the prefix and the exception, or an f-string that prints a JSON value, kept as the
  prefix and the value. The other constructors are the Python exceptions the
  module can meet, \<open>HTTPError\<close> standing for httpx's \<open>HTTPError\<close> and its subclasses;
  \<open>RetryError\<close> is the exception tenacity raises once the attempt budget is spent,
  wrapping the last failure.
\<close>

datatype exn =
    HTTPException nat detail
  | ValueError
  | TypeError
  | JSONDecodeError
  | IndexError
  | NameError
  | OverflowError
  | HTTPError
  | RetryError exn
and detail =
    Text string
  | About string exn
  | Shown string json

subsection \<open>Python string operations\<close>

text \<open>
  White space as \<open>str.strip\<close>, \<open>str.split\<close> and the regular expression class \<open>\s\<close> see
  it (all three use the same test): tab to carriage return, the four separators
  0x1C..0x1F, the space, and in the upper half NEL (0x85) and the no-break space (0xA0).
\<close>

definition is_space :: "char \<Rightarrow> bool" where
  "is_space c =
     (let n = (of_char c :: nat)
      in (9 \<le> n \<and> n \<le> 13) \<or> (28 \<le> n \<and> n \<le> 32) \<or> n = 133 \<or> n = 160)"

definition newline :: char where
  "newline = CHR 0x0A"

text \<open>\<open>s.strip()\<close> and \<open>s.strip(chars)\<close>.\<close>

definition strip :: "string \<Rightarrow> string" where
  "strip s = rev (dropWhile is_space (rev (dropWhile is_space s)))"

definition strip_chars :: "string \<Rightarrow> string \<Rightarrow> string" where
  "strip_chars chars s =
     rev (dropWhile (\<lambda>c. c \<in> set chars) (rev (dropWhile (\<lambda>c. c \<in> set chars) s)))"

text \<open>\<open>sub in s\<close>.\<close>

fun contains :: "string \<Rightarrow> string \<Rightarrow> bool" where
  "contains sub [] = (sub = [])"
| "contains sub (c # cs) = (prefix sub (c # cs) \<or> contains sub cs)"

text \<open>
  \<open>s.split(sep)\<close> and \<open>s.split(sep, maxsplit)\<close> for a separator that is not empty (every
  call in the module passes a literal one). \<open>acc\<close> is the piece being read.
\<close>

fun split_on :: "string \<Rightarrow> string \<Rightarrow> string \<Rightarrow> string list" where
  "split_on sep acc [] = [acc]"
| "split_on sep acc (c # cs) =
     (if prefix sep (c # cs) then acc # split_on sep [] (drop (length sep - 1) cs)
      else split_on sep (acc @ [c]) cs)"

fun split_max :: "string \<Rightarrow> nat \<Rightarrow> string \<Rightarrow> string \<Rightarrow> string list" where
  "split_max sep 0 acc s = [acc @ s]"
| "split_max sep (Suc k) acc [] = [acc]"
| "split_max sep (Suc k) acc (c # cs) =
     (if prefix sep (c # cs) then acc # split_max sep k [] (drop (length sep - 1) cs)
      else split_max sep (Suc k) (acc @ [c]) cs)"

text \<open>\<open>s.split()\<close>: the maximal runs of characters that are not white space.\<close>

fun words_acc :: "string \<Rightarrow> string \<Rightarrow> string list" where
  "words_acc acc [] = (if acc = [] then [] else [acc])"
| "words_acc acc (c # cs) =
     (if is_space c then (if acc = [] then words_acc [] cs else acc # words_acc [] cs)
      else words_acc (acc @ [c]) cs)"

definition split_ws :: "string \<Rightarrow> string list" where
  "split_ws s = words_acc [] s"

text \<open>\<open>sep.join(xs)\<close>.\<close>

fun join :: "string \<Rightarrow> string list \<Rightarrow> string" where
  "join sep [] = []"
| "join sep [x] = x"
| "join sep (x # y # ys) = x @ sep @ join sep (y # ys)"

text \<open>\<open>s.lower()\<close> on the 8-bit range: A..Z and the accented capitals 0xC0..0xDE but 0xD7.\<close>

definition lower_char :: "char \<Rightarrow> char" where
  "lower_char c =
     (let n = (of_char c :: nat)
      in if (65 \<le> n \<and> n \<le> 90) \<or> (192 \<le> n \<and> n \<le> 222 \<and> n \<noteq> 215)
         then char_of (n + 32) else c)"

definition lower :: "string \<Rightarrow> string" where
  "lower s = map lower_char s"

subsection \<open>Segmenter\<close>

text \<open>
  The delimiter pattern of \<open>split_into_chunks\<close>,
  \<^verbatim>\<open>(?<=[.!?])\s+|\.\s+|\?\s+|\!\s+|;\s+|\n+|\. |\? |\! \<close>
  tried at one position: \<open>prev\<close> is the character before the position (for the
  look-behind), \<open>s\<close> the text from the position on. The alternatives are tried in the
  pattern's order and the first that matches gives the length of the match; \<open>\s+\<close> and
  \<open>\n+\<close> are greedy and stand last in their alternative, so they take the whole run.
\<close>

definition ws_len :: "string \<Rightarrow> nat" where
  "ws_len s = length (takeWhile is_space s)"

definition look_behind :: "char option \<Rightarrow> bool" where
  "look_behind prev = (case prev of Some p \<Rightarrow> p \<in> set ''.!?'' | None \<Rightarrow> False)"

definition match_delim :: "char option \<Rightarrow> string \<Rightarrow> nat option" where
  "match_delim prev s =
     (if look_behind prev \<and> 0 < ws_len s then Some (ws_len s)
      else
        case s of
          [] \<Rightarrow> None
        | c # r \<Rightarrow>
            if c = CHR ''.'' \<and> 0 < ws_len r then Some (1 + ws_len r)
            else if c = CHR ''?'' \<and> 0 < ws_len r then Some (1 + ws_len r)
            else if c = CHR ''!'' \<and> 0 < ws_len r then Some (1 + ws_len r)
            else if c = CHR '';'' \<and> 0 < ws_len r then Some (1 + ws_len r)
            else if c = newline then Some (length (takeWhile (\<lambda>x. x = newline) s))
            else if c = CHR ''.'' \<and> prefix '' '' r then Some 2
            else if c = CHR ''?'' \<and> prefix '' '' r then Some 2
            else if c = CHR ''!'' \<and> prefix '' '' r then Some 2
            else None)"

lemma match_delim_pos: "match_delim prev s = Some n \<Longrightarrow> 0 < n"
  by (auto simp: match_delim_def split: if_splits list.splits)

text \<open>
  \<open>re.split\<close> with this pattern: the text is scanned from the left; at a position where
  the pattern matches, the piece read so far (\<open>acc\<close>) is closed and the scan goes on
  after the match, otherwise the character joins the piece.
\<close>

function re_split :: "char option \<Rightarrow> string \<Rightarrow> string \<Rightarrow> string list" where
  "re_split prev acc [] = [acc]"
| "re_split prev acc (c # cs) =
     (case match_delim prev (c # cs) of
        Some n \<Rightarrow> acc # re_split (Some ((c # cs) ! (n - 1))) [] (drop n (c # cs))
      | None \<Rightarrow> re_split (Some c) (acc @ [c]) cs)"
  by pat_completeness auto
termination
  by (relation "measure (\<lambda>(prev, acc, s). length s)") (auto dest: match_delim_pos)

text \<open>
  The first lines of \<open>split_into_chunks\<close>: newlines become spaces, the text is stripped
  and split, and the pieces that are not blank are kept, stripped.
\<close>

definition sentences_of :: "string \<Rightarrow> string list" where
  "sentences_of text0 =
     (let text1 = strip (map (\<lambda>c. if c = newline then CHR '' '' else c) text0);
          sentences = re_split None [] text1
      in map strip (filter (\<lambda>s. strip s \<noteq> []) sentences))"

text \<open>
  The inner loop over the words of a sentence that is too long, with its locals
  \<open>temp_chunk\<close> and \<open>temp_length\<close>; at the end of the words the rest is flushed.
\<close>

fun split_words :: "int \<Rightarrow> string list \<Rightarrow> string list \<Rightarrow> string list \<Rightarrow> int \<Rightarrow> string list" where
  "split_words max_length [] chunks temp_chunk temp_length =
     (if temp_chunk \<noteq> [] then chunks @ [join '' '' temp_chunk @ ''.''] else chunks)"
| "split_words max_length (word # ws) chunks temp_chunk temp_length =
     (let word_length = int (length word) + 1 in
      if temp_length + word_length > max_length then
        split_words max_length ws
          (if temp_chunk \<noteq> [] then chunks @ [join '' '' temp_chunk @ ''.''] else chunks)
          [word] word_length
      else
        split_words max_length ws chunks (temp_chunk @ [word]) (temp_length + word_length))"

text \<open>
  The outer loop over the sentences, with its locals \<open>chunks\<close>, \<open>current_chunk\<close> and
  \<open>current_length\<close>. A sentence that is too long goes through the word loop, whose
  chunks are appended to \<open>chunks\<close> at once, and \<open>continue\<close> leaves \<open>current_chunk\<close> as it
  is. After the last sentence the current chunk is flushed.
\<close>

fun pack_sentences :: "int \<Rightarrow> string list \<Rightarrow> string list \<Rightarrow> string list \<Rightarrow> int \<Rightarrow> string list" where
  "pack_sentences max_length [] chunks current_chunk current_length =
     (if current_chunk \<noteq> [] then chunks @ [join '' '' current_chunk @ ''.''] else chunks)"
| "pack_sentences max_length (sentence # rest) chunks current_chunk current_length =
     (let sentence_length = int (length sentence) in
      if sentence_length > max_length then
        pack_sentences max_length rest
          (split_words max_length (split_ws sentence) chunks [] 0)
          current_chunk current_length
      else if current_length + sentence_length > max_length then
        pack_sentences max_length rest
          (if current_chunk \<noteq> [] then chunks @ [join '' '' current_chunk @ ''.''] else chunks)
          [sentence] sentence_length
      else
        pack_sentences max_length rest chunks (current_chunk @ [sentence])
          (current_length + sentence_length))"

definition split_into_chunks :: "string \<Rightarrow> int \<Rightarrow> string list" where
  "split_into_chunks text0 max_length = pack_sentences max_length (sentences_of text0) [] [] 0"

text \<open>
  What the properties of the chunks are stated with: the characters of a text that are
  not white space, and the four punctuation characters a delimiter can begin with.
\<close>

definition non_whitespace :: "string \<Rightarrow> string" where
  "non_whitespace s = filter (\<lambda>c. \<not> is_space c) s"

definition is_delim :: "char \<Rightarrow> bool" where
  "is_delim c = (c \<in> set ''.?!;'')"

text \<open>
  A text without the punctuation the split consumes: each \<open>.\<close>, \<open>?\<close>, \<open>!\<close> or \<open>;\<close> that is
  directly followed by white space is removed, every other character stays.
\<close>

fun without_consumed_delims :: "string \<Rightarrow> string" where
  "without_consumed_delims [] = []"
| "without_consumed_delims [c] = [c]"
| "without_consumed_delims (c # d # cs) =
     (if is_delim c \<and> is_space d then without_consumed_delims (d # cs)
      else c # without_consumed_delims (d # cs))"

subsection \<open>AnalyzeRequest\<close>

text \<open>
  \<^verbatim>\<open>
  @validator('timeout')
  def validate_timeout(cls, v):
      if v < 1 or v > MAX_TIMEOUT:
          return DEFAULT_TIMEOUT
      return v
  \<close>
\<close>

definition validate_timeout :: "pyfloat \<Rightarrow> pyfloat" where
  "validate_timeout v =
     (if float_lt v (Finite 1) \<or> float_lt (Finite MAX_TIMEOUT) v then Finite DEFAULT_TIMEOUT
      else v)"

record AnalyzeRequest =
  technicalProcess :: string
  timeout :: pyfloat

text \<open>
  Building the request from a body: the field is optional, and pydantic runs the
  validator on a supplied value only (the default is taken as it is).
\<close>

definition mk_AnalyzeRequest :: "string \<Rightarrow> pyfloat option \<Rightarrow> AnalyzeRequest" where
  "mk_AnalyzeRequest tp t =
     \<lparr>technicalProcess = tp,
      timeout = (case t of None \<Rightarrow> Finite DEFAULT_TIMEOUT | Some v \<Rightarrow> validate_timeout v)\<rparr>"

subsection \<open>Classifier gateway\<close>

record SentinelResponse =
  status :: string
  message :: string
  type :: "string option"

text \<open>Decimal rendering of an integer, as an f-string prints it.\<close>

fun str_nat :: "nat \<Rightarrow> string" where
  "str_nat n =
     (if n < 10 then [char_of (48 + n)]
      else str_nat (n div 10) @ [char_of (48 + n mod 10)])"

declare str_nat.simps [simp del]

definition str_int :: "int \<Rightarrow> string" where
  "str_int i = (if i < 0 then CHR ''-'' # str_nat (nat (- i)) else str_nat (nat i))"

definition attack_types :: "int \<rightharpoonup> string" where
  "attack_types =
     [1 \<mapsto> ''DoS Attack'',
      2 \<mapsto> ''Probe Attack'',
      3 \<mapsto> ''Remote Access Attack'',
      4 \<mapsto> ''Privilege Escalation Attack'',
      5 \<mapsto> ''Data Exfiltration Attack'',
      6 \<mapsto> ''Brute Force Attack'',
      7 \<mapsto> ''Man-in-the-Middle Attack'']"

definition descriptions :: "string \<rightharpoonup> string" where
  "descriptions =
     [''DoS Attack'' \<mapsto> ''Detected a potential Denial of Service attack pattern. High volume of traffic attempting to overwhelm system resources.'',
      ''Probe Attack'' \<mapsto> ''Detected network probe activity. Possible port scanning or network mapping attempt.'',
      ''Remote Access Attack'' \<mapsto> ''Detected suspicious remote access attempt. Possible unauthorized access to system resources.'',
      ''Privilege Escalation Attack'' \<mapsto> ''Detected potential privilege escalation attempt. Possible unauthorized elevation of system access.'',
      ''Data Exfiltration Attack'' \<mapsto> ''Detected unusual data transfer patterns. Possible unauthorized data extraction attempt.'',
      ''Brute Force Attack'' \<mapsto> ''Detected repeated access attempts. Possible brute force attack on authentication.'',
      ''Man-in-the-Middle Attack'' \<mapsto> ''Detected suspicious traffic interception patterns. Possible man-in-the-middle attack.'']"

definition get_attack_description :: "string \<Rightarrow> string" where
  "get_attack_description attack_type =
     (case descriptions attack_type of
        Some d \<Rightarrow> d
      | None \<Rightarrow> ''Potential security threat detected with unusual traffic pattern.'')"

text \<open>
  \<open>analyze_traffic_data\<close>: the classifier \<open>rf_model\<close> is loaded from a file that is not
  part of the module, so its prediction is the parameter \<open>predict\<close>. Building the
  ten-column data frame fails on a row of any other length; the function's own
  \<open>except Exception\<close> turns that into a 500.
\<close>

definition analyze_traffic_data :: "(real list \<Rightarrow> int) \<Rightarrow> real list \<Rightarrow> exn + SentinelResponse" where
  "analyze_traffic_data predict data =
     (if length data \<noteq> 10 then
        Inl (HTTPException 500 (About ''Error analyzing traffic data: '' ValueError))
      else
        let prediction = predict data in
        if prediction = 0 then
          Inr \<lparr>status = ''clean'',
               message = ''No threats detected in the traffic data.'',
               type = None\<rparr>
        else
          let attack_type =
                (case attack_types prediction of
                   Some a \<Rightarrow> a
                 | None \<Rightarrow> ''Unknown Attack (Type '' @ str_int prediction @ '')'');
              message = get_attack_description attack_type
          in Inr \<lparr>status = ''malicious'', message = message, type = Some attack_type\<rparr>)"

subsection \<open>Traffic upload endpoint\<close>

text \<open>
  The uploaded file: its size and what \<open>json.loads\<close> makes of its content, which is a
  \<open>JSONDecodeError\<close> (\<open>Unparseable\<close>) or a JSON document.
\<close>

datatype content = Unparseable | Document json

record UploadFile =
  file_size :: nat
  file_content :: content

text \<open>
  \<open>float(x)\<close> on a decoded JSON value: a float or a boolean converts; an \<open>int\<close> converts
  unless it is too large for a float, that is, unless its magnitude reaches
  \<open>2^1024 - 2^970\<close>, the least integer that rounds up to \<open>2^1024\<close>, when \<open>OverflowError\<close>
  is raised; a string converts when Python can read it as a number (the parameter
  \<open>parse_float\<close>) and raises \<open>ValueError\<close> otherwise; \<open>None\<close>, a list or an object raise
  \<open>TypeError\<close>.
\<close>

definition float_overflow_bound :: int where
  "float_overflow_bound = 2 ^ 1024 - 2 ^ 970"

definition py_float :: "(string \<Rightarrow> real option) \<Rightarrow> json \<Rightarrow> exn + real" where
  "py_float parse_float x =
     (case x of
        JNum r \<Rightarrow> Inr r
      | JInt i \<Rightarrow>
          if float_overflow_bound \<le> \<bar>i\<bar> then Inl OverflowError else Inr (real_of_int i)
      | JBool b \<Rightarrow> Inr (if b then 1 else 0)
      | JStr s \<Rightarrow> (case parse_float s of Some r \<Rightarrow> Inr r | None \<Rightarrow> Inl ValueError)
      | _ \<Rightarrow> Inl TypeError)"

text \<open>The comprehension \<open>[float(x) for x in data]\<close>: the first failure ends it.\<close>

fun convert_all :: "(string \<Rightarrow> real option) \<Rightarrow> json list \<Rightarrow> exn + real list" where
  "convert_all parse_float [] = Inr []"
| "convert_all parse_float (x # xs) =
     (case py_float parse_float x of
        Inl e \<Rightarrow> Inl e
      | Inr r \<Rightarrow>
          (case convert_all parse_float xs of
             Inl e \<Rightarrow> Inl e
           | Inr rs \<Rightarrow> Inr (r # rs)))"

text \<open>The body of the inner \<open>try\<close>: decode, check the shape, convert.\<close>

definition parse_traffic :: "(string \<Rightarrow> real option) \<Rightarrow> content \<Rightarrow> exn + real list" where
  "parse_traffic parse_float c =
     (case c of
        Unparseable \<Rightarrow> Inl JSONDecodeError
      | Document data \<Rightarrow>
          (case data of
             JList xs \<Rightarrow>
               if length xs \<noteq> 10 then Inl ValueError else convert_all parse_float xs
           | _ \<Rightarrow> Inl ValueError))"

definition client_id_of :: "string option \<Rightarrow> string" where
  "client_id_of username =
     (case username of
        None \<Rightarrow> ''anonymous''
      | Some u \<Rightarrow> if u = [] then ''anonymous'' else u)"

text \<open>
  \<open>analyze_traffic\<close>. The dictionary \<open>upload_history\<close> is passed in and returned; the
  clock reading \<open>datetime.now()\<close> is the parameter \<open>current_time\<close>, in seconds.
  The handler's order is kept: the size check, the rate limit, the write of the
  timestamp, then the two nested \<open>try\<close> blocks. The inner handler catches
  \<open>JSONDecodeError\<close> and \<open>ValueError\<close> and raises a 400; the outer handler is
  \<open>except Exception\<close>, which catches every exception leaving the inner block, the 400
  included, and raises a 500 about it.
\<close>

definition analyze_traffic ::
  "(real list \<Rightarrow> int) \<Rightarrow> (string \<Rightarrow> real option) \<Rightarrow> (string \<rightharpoonup> real) \<Rightarrow>
   UploadFile \<Rightarrow> string option \<Rightarrow> real \<Rightarrow> (exn + SentinelResponse) \<times> (string \<rightharpoonup> real)" where
  "analyze_traffic predict parse_float upload_history file username current_time =
     (if file_size file > 5 * 1024 * 1024 then
        (Inl (HTTPException 400
           (Text ''File size too large. Please upload a file smaller than 5MB.'')),
         upload_history)
      else
        let client_id = client_id_of username in
        if (case upload_history client_id of
              Some last_upload \<Rightarrow> current_time - last_upload < 60
            | None \<Rightarrow> False)
        then
          (Inl (HTTPException 429
             (Text ''Please wait a minute before uploading another file.'')),
           upload_history)
        else
          let upload_history' = upload_history(client_id \<mapsto> current_time);
              inner =
                (case parse_traffic parse_float (file_content file) of
                   Inl e \<Rightarrow>
                     if e = JSONDecodeError \<or> e = ValueError then
                       Inl (HTTPException 400
                         (Text ''Invalid file format. Please upload a JSON file with the correct traffic data format.''))
                     else Inl e
                 | Inr traffic_data \<Rightarrow> analyze_traffic_data predict traffic_data)
          in
            (case inner of
               Inl e \<Rightarrow> Inl (HTTPException 500 (About ''Error processing file: '' e))
             | Inr result \<Rightarrow> Inr result,
             upload_history'))"

subsection \<open>Response parser\<close>

record regulation =
  name :: string
  relevance :: string
  requirements :: "string list"
  priority :: string

record report =
  regulations :: "regulation list"
  technicalRequirements :: "string list"
  nextSteps :: "string list"

datatype section_tag = technical | steps

text \<open>The three locals of the parsing loop.\<close>

record parser_state =
  result :: report
  current_section :: "section_tag option"
  current_regulation :: "regulation option"

definition determine_priority :: "string \<Rightarrow> string" where
  "determine_priority text =
     (let text_lower = lower text in
      if list_ex (\<lambda>word. contains word text_lower)
           [''critical'', ''high priority'', ''urgent'', ''immediate''] then ''high''
      else if list_ex (\<lambda>word. contains word text_lower)
           [''moderate'', ''medium priority'', ''important''] then ''medium''
      else ''low'')"

text \<open>
  One pass of the inner loop body, on one line. The branches are in the source's order:
  the blank line, the two section headers, the regulation keywords, then the
  \<open>if/elif/elif\<close> chain that files the line. \<open>line.split(":")[0]\<close> is the head of a list
  that is never empty, and \<open>line.split(":", 1)[1]\<close> is read only where the line has a
  colon, so both indices exist.
\<close>

definition process_line :: "string \<Rightarrow> parser_state \<Rightarrow> parser_state" where
  "process_line raw st =
     (let line = strip raw in
      if line = [] then st
      else if contains ''Technical Requirements:'' line \<or> contains ''Technical Implementation:'' line
        then st\<lparr>current_section := Some technical\<rparr>
      else if contains ''Next Steps:'' line \<or> contains ''Recommended Steps:'' line
        then st\<lparr>current_section := Some steps\<rparr>
      else if list_ex (\<lambda>reg. contains reg line)
                [''GDPR'', ''CCPA'', ''HIPAA'', ''PCI DSS'', ''SOC 2'', ''ISO''] then
        let res = (case current_regulation st of
                     Some r \<Rightarrow> (result st)\<lparr>regulations := regulations (result st) @ [r]\<rparr>
                   | None \<Rightarrow> result st);
            new = \<lparr>name = strip (hd (split_on '':'' [] line)),
                   relevance = [],
                   requirements = [],
                   priority = determine_priority line\<rparr>;
            new' = (if contains '':'' line
                    then new\<lparr>relevance := strip (split_max '':'' 1 [] line ! 1)\<rparr>
                    else new)
        in st\<lparr>result := res, current_regulation := Some new'\<rparr>
      else if current_section st = Some technical \<and> strip_chars ''- '' line \<noteq> [] then
        st\<lparr>result := (result st)\<lparr>technicalRequirements :=
              technicalRequirements (result st) @ [strip_chars ''- '' line]\<rparr>\<rparr>
      else if current_section st = Some steps \<and> strip_chars ''- '' line \<noteq> [] then
        st\<lparr>result := (result st)\<lparr>nextSteps :=
              nextSteps (result st) @ [strip_chars ''- '' line]\<rparr>\<rparr>
      else
        (case current_regulation st of
           Some r \<Rightarrow>
             if strip_chars ''- '' line \<noteq> [] then
               (if relevance r = [] \<and> contains '':'' line
                then st\<lparr>current_regulation :=
                       Some (r\<lparr>relevance := strip (split_max '':'' 1 [] line ! 1)\<rparr>)\<rparr>
                else st\<lparr>current_regulation :=
                       Some (r\<lparr>requirements := requirements r @ [strip_chars ''- '' line]\<rparr>)\<rparr>)
             else st
         | None \<Rightarrow> st))"

definition parse_compliance_analysis :: "string \<Rightarrow> report" where
  "parse_compliance_analysis analysis =
     (let sections = split_on [newline, newline] [] analysis;
          st = fold (\<lambda>section st. fold process_line (split_on [newline] [] (strip section)) st)
                 sections
                 \<lparr>result = \<lparr>regulations = [], technicalRequirements = [], nextSteps = []\<rparr>,
                  current_section = None,
                  current_regulation = None\<rparr>
      in case current_regulation st of
           Some r \<Rightarrow> (result st)\<lparr>regulations := regulations (result st) @ [r]\<rparr>
         | None \<Rightarrow> result st)"

subsection \<open>Requests to the completion API\<close>

definition is_cloudflare_challenge :: "string \<Rightarrow> bool" where
  "is_cloudflare_challenge response_text =
     list_ex (\<lambda>indicator. contains indicator (lower response_text))
       [''attention required! | cloudflare'',
        ''please turn javascript on'',
        ''please enable cookies'',
        ''ray id:'',
        ''cdn-cgi'']"

definition should_retry_error :: "exn \<Rightarrow> bool" where
  "should_retry_error exception =
     (case exception of
        HTTPException code _ \<Rightarrow> code \<in> set [429, 503, 502, 500]
      | HTTPError \<Rightarrow> True
      | _ \<Rightarrow> False)"

text \<open>
  An upstream response: its status code, its body, and what \<open>response.json()\<close> makes of
  the body as far as \<open>handle_http_error\<close> looks at it: not JSON, an object whose
  \<open>"error"\<close> is an object (with the value of its \<open>"message"\<close>, if it has one), or any
  other JSON. One attempt meets a transport timeout, another network error, or a
  response.
\<close>

datatype error_body = NotJson | ErrorObject "json option" | OtherJson

record http_response =
  status_code :: nat
  body_text :: string
  body_json :: error_body

datatype outcome = TimedOut | NetworkFailure | Responded http_response

text \<open>
  \<open>handle_http_error\<close>. \<open>error_msg\<close> is the value of \<open>"message"\<close>, or \<open>"Unknown error"\<close> when
  the key is missing. The test \<open>"Authentication Error" in error_msg\<close> is a substring test
  on a string, a membership test on a list and a key test on an object, and raises
  \<open>TypeError\<close> on \<open>None\<close>, a boolean or a number; only \<open>JSONDecodeError\<close> is caught.
\<close>

definition handle_http_error :: "http_response \<Rightarrow> exn + detail" where
  "handle_http_error response =
     (case body_json response of
        ErrorObject m \<Rightarrow>
          (case (case m of Some v \<Rightarrow> v | None \<Rightarrow> JStr ''Unknown error'') of
             JStr error_msg \<Rightarrow>
               if contains ''Authentication Error'' error_msg then
                 Inl (HTTPException 401
                   (Text ''API authentication failed. Please check your API key configuration.''))
               else Inr (Text (''API Error: '' @ error_msg))
           | JList xs \<Rightarrow>
               if JStr ''Authentication Error'' \<in> set xs then
                 Inl (HTTPException 401
                   (Text ''API authentication failed. Please check your API key configuration.''))
               else Inr (Shown ''API Error: '' (JList xs))
           | JObj kvs \<Rightarrow>
               if ''Authentication Error'' \<in> set (map fst kvs) then
                 Inl (HTTPException 401
                   (Text ''API authentication failed. Please check your API key configuration.''))
               else Inr (Shown ''API Error: '' (JObj kvs))
           | _ \<Rightarrow> Inl TypeError)
      | NotJson \<Rightarrow>
          if is_cloudflare_challenge (body_text response) then
            Inr (Text ''API access is temporarily restricted. Please try again in a few minutes.'')
          else Inr (Text ''The API service is currently unavailable. Please try again later.'')
      | OtherJson \<Rightarrow>
          Inr (Text ''The API service is currently unavailable. Please try again later.''))"

text \<open>
  The body of \<open>make_api_request\<close>, run once. The arguments of \<open>client.request\<close> are
  evaluated first, \<open>timeout=REQUEST_TIMEOUT\<close> among them: when the name is not bound this
  raises \<open>NameError\<close> before anything is sent, and none of the three handlers catches it.
  Otherwise the request meets its outcome; \<open>raise_for_status\<close> raises for every status
  outside 200..299.
\<close>

definition attempt :: "real option \<Rightarrow> outcome \<Rightarrow> exn + http_response" where
  "attempt request_timeout out =
     (case request_timeout of
        None \<Rightarrow> Inl NameError
      | Some t \<Rightarrow>
          (case out of
             TimedOut \<Rightarrow>
               Inl (HTTPException 504
                 (Text ''Request timed out. The system is processing a high volume of requests.''))
           | NetworkFailure \<Rightarrow>
               Inl (HTTPException 503
                 (Text ''Service temporarily unavailable. Please try again later.''))
           | Responded response \<Rightarrow>
               if status_code response \<in> set [403, 503] \<and>
                  is_cloudflare_challenge (body_text response)
               then
                 Inl (HTTPException 503
                   (Text ''API access is temporarily restricted. Please try again in a few minutes.''))
               else if 200 \<le> status_code response \<and> status_code response < 300
                 then Inr response
               else
                 (case handle_http_error response of
                    Inl e \<Rightarrow> Inl e
                  | Inr error_detail \<Rightarrow>
                      Inl (HTTPException (status_code response) error_detail))))"

text \<open>
  The decorator
  \<^verbatim>\<open>@retry(stop=stop_after_attempt(MAX_RETRIES),
         wait=wait_exponential(multiplier=1, min=2, max=4),
         retry=retry_if_exception_type((httpx.HTTPError, HTTPException)))\<close>
  as tenacity runs it: an attempt that raises an exception of one of the two classes
  is repeated after the wait, until the attempt with number \<open>MAX_RETRIES\<close> has failed,
  when \<open>RetryError\<close> is raised; any other exception leaves at once.
  \<open>retry_from left n call\<close> runs attempt number \<open>n\<close> with \<open>left\<close> attempts after it, and
  returns the result, the number of the last attempt made and the waits slept.
\<close>

definition retry_if_exception_type :: "exn \<Rightarrow> bool" where
  "retry_if_exception_type e =
     (case e of HTTPException _ _ \<Rightarrow> True | HTTPError \<Rightarrow> True | _ \<Rightarrow> False)"

definition wait_exponential :: "nat \<Rightarrow> nat" where
  "wait_exponential attempt_number = max 2 (min (1 * 2 ^ (attempt_number - 1)) 4)"

fun retry_from :: "nat \<Rightarrow> nat \<Rightarrow> (nat \<Rightarrow> exn + 'a) \<Rightarrow> (exn + 'a) \<times> nat \<times> nat list" where
  "retry_from 0 n call =
     (case call n of
        Inr r \<Rightarrow> (Inr r, n, [])
      | Inl e \<Rightarrow> if retry_if_exception_type e then (Inl (RetryError e), n, []) else (Inl e, n, []))"
| "retry_from (Suc left) n call =
     (case call n of
        Inr r \<Rightarrow> (Inr r, n, [])
      | Inl e \<Rightarrow>
          if retry_if_exception_type e then
            (case retry_from left (Suc n) call of
               (res, m, waits) \<Rightarrow> (res, m, wait_exponential n # waits))
          else (Inl e, n, []))"

text \<open>\<open>upstream n\<close> is what attempt number \<open>n\<close> (from 1) meets.\<close>

definition make_api_request ::
  "real option \<Rightarrow> (nat \<Rightarrow> outcome) \<Rightarrow> (exn + http_response) \<times> nat \<times> nat list" where
  "make_api_request request_timeout upstream =
     retry_from (MAX_RETRIES - 1) 1 (\<lambda>n. attempt request_timeout (upstream n))"

subsection \<open>Chunk dispatch\<close>

record chunk_result =
  chunk_index :: nat
  analysis :: string

definition user_prompt :: "string \<Rightarrow> nat \<Rightarrow> nat \<Rightarrow> string" where
  "user_prompt chunk idx total_chunks =
     ''Analyze this process segment for compliance requirements:'' @ [newline] @
     ''Context: Part '' @ str_nat (idx + 1) @ ''/'' @ str_nat total_chunks @ [newline] @
     ''Process: '' @ chunk @ [newline, newline] @
     ''Provide brief:'' @ [newline] @
     ''1. Key regulations (priority)'' @ [newline] @
     ''2. Technical requirements'' @ [newline] @
     ''3. Next steps''"

text \<open>
  \<open>process_chunk\<close>. \<open>request_timeout\<close> is the global that \<open>make_api_request\<close> reads.
  The completion API is the parameter \<open>upstream\<close>, from the user prompt
  and the attempt number to the outcome; \<open>content_of\<close> reads
  \<open>["choices"][0]["message"]["content"]\<close> out of the response and raises when the body
  has another shape. Every exception is printed and raised again. The \<open>timeout\<close>
  argument is only passed on in the request body and is left out.
\<close>

definition process_chunk ::
  "real option \<Rightarrow> (string \<Rightarrow> nat \<Rightarrow> outcome) \<Rightarrow> (http_response \<Rightarrow> exn + string) \<Rightarrow>
   string \<Rightarrow> nat \<Rightarrow> nat \<Rightarrow> exn + chunk_result" where
  "process_chunk request_timeout upstream content_of chunk idx total_chunks =
     (case fst (make_api_request request_timeout
                  (upstream (user_prompt chunk idx total_chunks))) of
        Inl e \<Rightarrow> Inl e
      | Inr openai_response \<Rightarrow>
          (case content_of openai_response of
             Inl e \<Rightarrow> Inl e
           | Inr c \<Rightarrow> Inr \<lparr>chunk_index = idx, analysis = c\<rparr>))"

text \<open>
  \<open>asyncio.gather(*tasks)\<close>. The tasks finish in some order, given as the list
  \<open>completion\<close> of task positions. The first task to finish with an exception makes
  \<open>gather\<close> raise it; when none does, the results come back in the order of the tasks,
  whatever the order of completion.
\<close>

fun first_error :: "(exn + 'a) list \<Rightarrow> exn option" where
  "first_error [] = None"
| "first_error (Inl e # rs) = Some e"
| "first_error (Inr v # rs) = first_error rs"

fun all_results :: "(exn + 'a) list \<Rightarrow> exn + 'a list" where
  "all_results [] = Inr []"
| "all_results (Inl e # rs) = Inl e"
| "all_results (Inr v # rs) = (case all_results rs of Inl e \<Rightarrow> Inl e | Inr vs \<Rightarrow> Inr (v # vs))"

definition gather :: "nat list \<Rightarrow> (exn + 'a) list \<Rightarrow> exn + 'a list" where
  "gather completion tasks =
     (case first_error (map (\<lambda>i. tasks ! i) (filter (\<lambda>i. i < length tasks) completion)) of
        Some e \<Rightarrow> Inl e
      | None \<Rightarrow> all_results tasks)"

text \<open>
  The per-chunk results of \<open>analyze_compliance\<close>, as they stand before the analyses are
  joined: with more than one chunk, the gathered results sorted by \<open>chunk_index\<close>
  (\<open>list.sort\<close>, a stable sort); otherwise the single result of \<open>process_chunks[0]\<close>,
  which does not exist when there is no chunk.
\<close>

definition chunk_results ::
  "real option \<Rightarrow> (string \<Rightarrow> nat \<Rightarrow> outcome) \<Rightarrow> (http_response \<Rightarrow> exn + string) \<Rightarrow>
   nat list \<Rightarrow> string list \<Rightarrow> exn + chunk_result list" where
  "chunk_results request_timeout upstream content_of completion process_chunks =
     (let total_chunks = length process_chunks in
      if total_chunks > 1 then
        (case gather completion
                (map (\<lambda>(i, chunk).
                        process_chunk request_timeout upstream content_of chunk i total_chunks)
                   (enumerate 0 process_chunks)) of
           Inl e \<Rightarrow> Inl e
         | Inr rs \<Rightarrow> Inr (sort_key chunk_index rs))
      else
        (case process_chunks of
           [] \<Rightarrow> Inl IndexError
         | chunk # _ \<Rightarrow>
             (case process_chunk request_timeout upstream content_of chunk 0 1 of
                Inl e \<Rightarrow> Inl e
              | Inr r \<Rightarrow> Inr [r])))"

subsection \<open>Policy search\<close>

text \<open>
  One entry of the upstream \<open>results\<close> array: each of the four keys the handler reads may
  be missing. A policy is the dictionary the handler builds for an entry it keeps.
\<close>

record hit =
  hit_url :: "string option"
  hit_title :: "string option"
  hit_snippet :: "string option"
  hit_score :: "real option"

record policy =
  title :: string
  url :: string
  snippet :: string
  relevance_score :: real
  domain :: string
  category :: string

definition categorize_domain :: "string \<Rightarrow> string list \<Rightarrow> string" where
  "categorize_domain domain_name search_domains =
     (let domain_lower = lower domain_name in
      if list_ex (\<lambda>d. contains d domain_lower) [''europa.eu'', ''ec.europa.eu'', ''edpb.europa.eu'']
        then ''EU Domain''
      else if list_ex (\<lambda>d. contains d domain_lower) [''gov'', ''government'']
        then ''Government Domain''
      else if list_ex (\<lambda>d. contains d domain_lower) [''int'', ''un.org'', ''who.int'']
        then ''International Organization''
      else if suffix ''.org'' domain_lower then ''Non-Profit Organization''
      else ''Other'')"

text \<open>
  The loop over the upstream results. \<open>seen_urls\<close> is the set of urls already kept; an
  entry is kept when its url is present and not empty, not yet seen, and its title is
  present and not empty. \<open>extract_domain\<close> (the host of the url, by the standard library)
  is a parameter.
\<close>

fun collect_results ::
  "(string \<Rightarrow> string) \<Rightarrow> string list \<Rightarrow> string set \<Rightarrow> hit list \<Rightarrow> policy list" where
  "collect_results extract_domain search_domains seen_urls [] = []"
| "collect_results extract_domain search_domains seen_urls (r # rs) =
     (case (hit_url r, hit_title r) of
        (Some u, Some t) \<Rightarrow>
          if u \<noteq> [] \<and> u \<notin> seen_urls \<and> t \<noteq> [] then
            \<lparr>title = t,
             url = u,
             snippet = (case hit_snippet r of Some s \<Rightarrow> s | None \<Rightarrow> []),
             relevance_score = (case hit_score r of Some x \<Rightarrow> x | None \<Rightarrow> 0),
             domain = extract_domain u,
             category = categorize_domain (extract_domain u) search_domains\<rparr>
            # collect_results extract_domain search_domains (insert u seen_urls) rs
          else collect_results extract_domain search_domains seen_urls rs
      | _ \<Rightarrow> collect_results extract_domain search_domains seen_urls rs)"

text \<open>
  \<open>results.sort(key=lambda x: x["relevance_score"], reverse=True)\<close>: Python's sort is
  stable, also with \<open>reverse=True\<close>, so it is the stable sort by the negated score.
\<close>

definition sort_by_score :: "policy list \<Rightarrow> policy list" where
  "sort_by_score results = sort_key (\<lambda>x. - relevance_score x) results"

definition ranked_policies :: "(string \<Rightarrow> string) \<Rightarrow> string list \<Rightarrow> hit list \<Rightarrow> policy list" where
  "ranked_policies extract_domain search_domains upstream_results =
     sort_by_score (collect_results extract_domain search_domains {} upstream_results)"

text \<open>The query sent upstream: one \<open>site:\<close> token per domain, joined by OR.\<close>

definition domain_query :: "string \<Rightarrow> string" where
  "domain_query d =
     (if prefix ''.'' d then ''site:'' @ drop 1 d else ''site:.'' @ d)"

definition search_query :: "string \<Rightarrow> string list \<Rightarrow> string" where
  "search_query q search_domains =
     ''('' @ q @ '') ('' @ join '' OR '' (map domain_query search_domains) @ '')''"

text \<open>
  The endpoint. The upstream call is a parameter from the query to its outcome: a
  transport timeout, or a status code with the \<open>results\<close> array of the body (empty when
  the key is missing). The 504 handler catches the timeout; the last handler is
  \<open>except Exception\<close>, which also catches the \<open>HTTPException\<close> raised for a status other
  than 200.
\<close>

datatype search_outcome = SearchTimeout | SearchResponse nat "hit list"

record PolicySearchRequest =
  query :: string
  domains :: "string list"

record PolicySearchResponse =
  policies :: "policy list"
  response_query :: string
  response_domains :: "string list"

definition search_policies ::
  "bool \<Rightarrow> (string \<Rightarrow> string) \<Rightarrow> (string \<Rightarrow> search_outcome) \<Rightarrow> PolicySearchRequest \<Rightarrow>
   exn + PolicySearchResponse" where
  "search_policies has_api_key extract_domain upstream request =
     (if \<not> has_api_key then Inl (HTTPException 500 (Text ''Tavily API key not configured''))
      else
        case upstream (search_query (query request) (domains request)) of
          SearchTimeout \<Rightarrow>
            Inl (HTTPException 504 (Text ''Request timed out while searching for policies''))
        | SearchResponse code results \<Rightarrow>
            if code \<noteq> 200 then
              Inl (HTTPException 500 (About ''Failed to search for policies: ''
                     (HTTPException code (Text ''Failed to fetch policy information''))))
            else
              Inr \<lparr>policies = ranked_policies extract_domain (domains request) results,
                   response_query = query request,
                   response_domains = domains request\<rparr>)"

text \<open>
  The reading of "first occurrence of each url" the ranking is compared with: among the
  entries that have a url and a title, every entry whose url occurred earlier is
  removed.
\<close>

definition usable :: "hit \<Rightarrow> bool" where
  "usable r =
     ((case hit_url r of Some u \<Rightarrow> u \<noteq> [] | None \<Rightarrow> False) \<and>
      (case hit_title r of Some t \<Rightarrow> t \<noteq> [] | None \<Rightarrow> False))"

fun first_occurrences :: "hit list \<Rightarrow> hit list" where
  "first_occurrences [] = []"
| "first_occurrences (r # rs) = r # first_occurrences (filter (\<lambda>q. hit_url q \<noteq> hit_url r) rs)"

definition to_policy :: "(string \<Rightarrow> string) \<Rightarrow> string list \<Rightarrow> hit \<Rightarrow> policy" where
  "to_policy extract_domain search_domains r =
     \<lparr>title = the (hit_title r),
      url = the (hit_url r),
      snippet = (case hit_snippet r of Some s \<Rightarrow> s | None \<Rightarrow> []),
      relevance_score = (case hit_score r of Some x \<Rightarrow> x | None \<Rightarrow> 0),
      domain = extract_domain (the (hit_url r)),
      category = categorize_domain (extract_domain (the (hit_url r))) search_domains\<rparr>"

section \<open>Properties\<close>

lemma attack_types_None: "p < 1 \<or> 7 < p \<Longrightarrow> attack_types p = None"
  by (auto simp: attack_types_def)

lemma str_int_99: "str_int 99 = ''99''"
  by code_simp

lemma descriptions_unknown: "descriptions (''Unknown Attack (Type '' @ s) = None"
  by (simp add: descriptions_def)

text \<open>
  C7. On a ten-value record, class id 0 gives the verdict "clean" with no type, class
  id 3 gives "malicious" with type "Remote Access Attack", and a class id outside 0..7
  still gives "malicious" with the generic type "Unknown Attack (Type N)", N the class
  id in decimal; each is a verdict, not an error.
\<close>

theorem classifier_verdicts:
  assumes "length data = 10"
  shows "(predict data = 0 \<longrightarrow>
            analyze_traffic_data predict data =
              Inr \<lparr>status = ''clean'', message = ''No threats detected in the traffic data.'',
                   type = None\<rparr>) \<and>
         (predict data = 3 \<longrightarrow>
            analyze_traffic_data predict data =
              Inr \<lparr>status = ''malicious'',
                   message = ''Detected suspicious remote access attempt. Possible unauthorized access to system resources.'',
                   type = Some ''Remote Access Attack''\<rparr>) \<and>
         (predict data < 0 \<or> 7 < predict data \<longrightarrow>
            analyze_traffic_data predict data =
              Inr \<lparr>status = ''malicious'',
                   message = ''Potential security threat detected with unusual traffic pattern.'',
                   type = Some (''Unknown Attack (Type '' @ str_int (predict data) @ '')'')\<rparr>)"
proof (intro conjI impI)
  assume "predict data = 0"
  with assms show "analyze_traffic_data predict data =
      Inr \<lparr>status = ''clean'', message = ''No threats detected in the traffic data.'',
           type = None\<rparr>"
    by (simp add: analyze_traffic_data_def)
next
  assume "predict data = 3"
  with assms show "analyze_traffic_data predict data =
      Inr \<lparr>status = ''malicious'',
           message = ''Detected suspicious remote access attempt. Possible unauthorized access to system resources.'',
           type = Some ''Remote Access Attack''\<rparr>"
    by (simp add: analyze_traffic_data_def attack_types_def get_attack_description_def
                  descriptions_def)
next
  assume out: "predict data < 0 \<or> 7 < predict data"
  then have none: "attack_types (predict data) = None"
    by (intro attack_types_None) auto
  from out have nz: "predict data \<noteq> 0" by auto
  from assms none nz show "analyze_traffic_data predict data =
      Inr \<lparr>status = ''malicious'',
           message = ''Potential security threat detected with unusual traffic pattern.'',
           type = Some (''Unknown Attack (Type '' @ str_int (predict data) @ '')'')\<rparr>"
    by (simp add: analyze_traffic_data_def get_attack_description_def descriptions_unknown
             del: append.simps)
qed

theorem classifier_verdicts_witness:
  "analyze_traffic_data (\<lambda>_. 0) (replicate 10 0) =
     Inr \<lparr>status = ''clean'', message = ''No threats detected in the traffic data.'',
          type = None\<rparr> \<and>
   analyze_traffic_data (\<lambda>_. 3) (replicate 10 0) =
     Inr \<lparr>status = ''malicious'',
          message = ''Detected suspicious remote access attempt. Possible unauthorized access to system resources.'',
          type = Some ''Remote Access Attack''\<rparr> \<and>
   analyze_traffic_data (\<lambda>_. 99) (replicate 10 0) =
     Inr \<lparr>status = ''malicious'',
          message = ''Potential security threat detected with unusual traffic pattern.'',
          type = Some ''Unknown Attack (Type 99)''\<rparr>"
  using classifier_verdicts [of "replicate 10 0" "\<lambda>_. 0"]
        classifier_verdicts [of "replicate 10 0" "\<lambda>_. 3"]
        classifier_verdicts [of "replicate 10 0" "\<lambda>_. 99"]
  by (simp add: str_int_99)

text \<open>
  C3. An upload that passes the size check and the rate limit and whose payload is
  malformed (decoding, the shape check or the conversion raises) is answered with
  status 500: the 400 raised by the inner handler is caught by the outer
  \<open>except Exception\<close> and wrapped.
\<close>

theorem malformed_upload_is_500:
  assumes "file_size file \<le> 5 * 1024 * 1024"
    and "case upload_history (client_id_of username) of
           Some last_upload \<Rightarrow> \<not> current_time - last_upload < 60
         | None \<Rightarrow> True"
    and "parse_traffic parse_float (file_content file) = Inl e"
  shows "fst (analyze_traffic predict parse_float upload_history file username current_time) =
           Inl (HTTPException 500 (About ''Error processing file: ''
             (if e = JSONDecodeError \<or> e = ValueError then
                HTTPException 400
                  (Text ''Invalid file format. Please upload a JSON file with the correct traffic data format.'')
              else e)))"
  using assms by (auto simp: analyze_traffic_def Let_def split: option.splits)

theorem malformed_upload_is_500_witness:
  "fst (analyze_traffic (\<lambda>_. 0) (\<lambda>_. None) Map.empty
          \<lparr>file_size = 20, file_content = Unparseable\<rparr> None 0) =
     Inl (HTTPException 500 (About ''Error processing file: ''
       (HTTPException 400
          (Text ''Invalid file format. Please upload a JSON file with the correct traffic data format.'')))) \<and>
   fst (analyze_traffic (\<lambda>_. 0) (\<lambda>_. None) Map.empty
          \<lparr>file_size = 20, file_content = Document (JList [JNum 1, JNum 2])\<rparr> None 0) =
     Inl (HTTPException 500 (About ''Error processing file: ''
       (HTTPException 400
          (Text ''Invalid file format. Please upload a JSON file with the correct traffic data format.''))))"
proof -
  let ?f1 = "\<lparr>file_size = 20, file_content = Unparseable\<rparr>"
  let ?f2 = "\<lparr>file_size = 20, file_content = Document (JList [JNum 1, JNum 2])\<rparr>"
  have a1: "file_size ?f1 \<le> 5 * 1024 * 1024" and b1: "file_size ?f2 \<le> 5 * 1024 * 1024"
    by simp_all
  have a2: "case Map.empty (client_id_of None) of
              Some last_upload \<Rightarrow> \<not> (0::real) - last_upload < 60 | None \<Rightarrow> True"
    by simp
  have a3: "parse_traffic (\<lambda>_. None) (file_content ?f1) = Inl JSONDecodeError"
    by (simp add: parse_traffic_def)
  have b3: "parse_traffic (\<lambda>_. None) (file_content ?f2) = Inl ValueError"
    by (simp add: parse_traffic_def)
  from malformed_upload_is_500 [OF a1 a2 a3, of "\<lambda>_. 0"]
       malformed_upload_is_500 [OF b1 a2 b3, of "\<lambda>_. 0"]
  show ?thesis by simp
qed

text \<open>
  C9, as stated, fails: a second upload inside the minute that is larger than 5 MB is
  stopped by the size check, which comes before the rate limit, and gets 400.
\<close>

theorem second_upload_oversized_counterexample:
  "fst (analyze_traffic (\<lambda>_. 0) (\<lambda>_. None) Map.empty
          \<lparr>file_size = 20, file_content = Unparseable\<rparr> (Some ''bob'') 0) =
     Inl (HTTPException 500 (About ''Error processing file: ''
       (HTTPException 400
          (Text ''Invalid file format. Please upload a JSON file with the correct traffic data format.'')))) \<and>
   fst (analyze_traffic (\<lambda>_. 0) (\<lambda>_. None)
          (snd (analyze_traffic (\<lambda>_. 0) (\<lambda>_. None) Map.empty
                  \<lparr>file_size = 20, file_content = Unparseable\<rparr> (Some ''bob'') 0))
          \<lparr>file_size = 6 * 1024 * 1024, file_content = Unparseable\<rparr> (Some ''bob'') 10) =
     Inl (HTTPException 400
       (Text ''File size too large. Please upload a file smaller than 5MB.''))"
  by (simp add: analyze_traffic_def parse_traffic_def client_id_of_def)

text \<open>
  C9, amended. The timestamp is written before the payload is validated and is kept
  when validation fails: after an upload that passed the size check and the rate limit
  and was then rejected as malformed, the history holds its time, and a second upload
  of the same client id less than 60 seconds later that is itself within the size
  limit is refused with 429, leaving the history as it was.
\<close>

theorem rejected_upload_counts_against_rate_limit:
  assumes "file_size file1 \<le> 5 * 1024 * 1024"
    and "case upload_history (client_id_of username1) of
           Some last_upload \<Rightarrow> \<not> t1 - last_upload < 60
         | None \<Rightarrow> True"
    and "parse_traffic parse_float (file_content file1) = Inl e"
    and "analyze_traffic predict parse_float upload_history file1 username1 t1 = (r1, history1)"
    and "client_id_of username2 = client_id_of username1"
    and "t2 - t1 < 60"
    and "file_size file2 \<le> 5 * 1024 * 1024"
  shows "(\<exists>d. r1 = Inl (HTTPException 500 d)) \<and>
         history1 = upload_history(client_id_of username1 \<mapsto> t1) \<and>
         analyze_traffic predict parse_float history1 file2 username2 t2 =
           (Inl (HTTPException 429 (Text ''Please wait a minute before uploading another file.'')),
            history1)"
proof -
  from assms(1-4) have r1: "\<exists>d. r1 = Inl (HTTPException 500 d)"
    by (auto simp: analyze_traffic_def Let_def split: option.splits)
  from assms(1-4) have h1: "history1 = upload_history(client_id_of username1 \<mapsto> t1)"
    by (auto simp: analyze_traffic_def Let_def split: option.splits)
  from h1 assms(5-7) have
    "analyze_traffic predict parse_float history1 file2 username2 t2 =
       (Inl (HTTPException 429 (Text ''Please wait a minute before uploading another file.'')),
        history1)"
    by (simp add: analyze_traffic_def Let_def)
  with r1 h1 show ?thesis by blast
qed

theorem rejected_upload_counts_against_rate_limit_witness:
  "analyze_traffic (\<lambda>_. 0) (\<lambda>_. None) [''bob'' \<mapsto> 0]
     \<lparr>file_size = 20, file_content = Document (JList (replicate 10 (JNum 1)))\<rparr> (Some ''bob'') 10 =
     (Inl (HTTPException 429 (Text ''Please wait a minute before uploading another file.'')),
      [''bob'' \<mapsto> 0])"
proof -
  let ?f1 = "\<lparr>file_size = 20, file_content = Unparseable\<rparr>"
  let ?f2 = "\<lparr>file_size = 20, file_content = Document (JList (replicate 10 (JNum 1)))\<rparr>"
  let ?r1 = "Inl (HTTPException 500 (About ''Error processing file: ''
       (HTTPException 400
          (Text ''Invalid file format. Please upload a JSON file with the correct traffic data format.''))))
       :: exn + SentinelResponse"
  have a1: "file_size ?f1 \<le> 5 * 1024 * 1024" by simp
  have a2: "case Map.empty (client_id_of (Some ''bob'')) of
              Some last_upload \<Rightarrow> \<not> (0::real) - last_upload < 60 | None \<Rightarrow> True"
    by simp
  have a3: "parse_traffic (\<lambda>_. None) (file_content ?f1) = Inl JSONDecodeError"
    by (simp add: parse_traffic_def)
  have a4: "analyze_traffic (\<lambda>_. 0) (\<lambda>_. None) Map.empty ?f1 (Some ''bob'') 0 =
              (?r1, [''bob'' \<mapsto> 0])"
    by (simp add: analyze_traffic_def parse_traffic_def client_id_of_def)
  have a5: "client_id_of (Some ''bob'') = client_id_of (Some ''bob'')" by simp
  have a6: "(10::real) - 0 < 60" by simp
  have a7: "file_size ?f2 \<le> 5 * 1024 * 1024" by simp
  from rejected_upload_counts_against_rate_limit [OF a1 a2 a3 a4 a5 a6 a7]
  show ?thesis by (simp add: client_id_of_def)
qed

text \<open>
  C6. The text made of the three lines "GDPR: protects personal data",
  "Technical Requirements:" and "- encryption at rest" parses to a report with exactly
  one regulation, named GDPR, with relevance "protects personal data" (no requirements,
  priority low), the technical requirements ["encryption at rest"] and no next steps;
  the same holds when the lines are separated by blank lines.
\<close>

theorem parse_gdpr_example:
  "parse_compliance_analysis
     (''GDPR: protects personal data'' @ [newline] @
      ''Technical Requirements:'' @ [newline] @
      ''- encryption at rest'') =
     \<lparr>regulations =
        [\<lparr>name = ''GDPR'', relevance = ''protects personal data'', requirements = [],
          priority = ''low''\<rparr>],
      technicalRequirements = [''encryption at rest''],
      nextSteps = []\<rparr> \<and>
   parse_compliance_analysis
     (''GDPR: protects personal data'' @ [newline, newline] @
      ''Technical Requirements:'' @ [newline, newline] @
      ''- encryption at rest'') =
     \<lparr>regulations =
        [\<lparr>name = ''GDPR'', relevance = ''protects personal data'', requirements = [],
          priority = ''low''\<rparr>],
      technicalRequirements = [''encryption at rest''],
      nextSteps = []\<rparr>"
  by code_simp

lemma collect_results_first_occurrences:
  "collect_results ex ds seen rs =
     map (to_policy ex ds)
       (first_occurrences (filter (\<lambda>r. usable r \<and> the (hit_url r) \<notin> seen) rs))"
proof (induction rs arbitrary: seen)
  case Nil
  then show ?case by simp
next
  case (Cons r rs)
  show ?case
  proof (cases "usable r \<and> the (hit_url r) \<notin> seen")
    case True
    then obtain u where u: "hit_url r = Some u" "u \<noteq> []" "u \<notin> seen"
      by (auto simp: usable_def split: option.splits)
    have "filter (\<lambda>q. hit_url q \<noteq> hit_url r)
            (filter (\<lambda>r. usable r \<and> the (hit_url r) \<notin> seen) rs) =
          filter (\<lambda>r. usable r \<and> the (hit_url r) \<notin> insert u seen) rs"
      using u by (auto simp: usable_def intro!: filter_cong split: option.splits)
    with True u Cons.IH [of "insert u seen"] show ?thesis
      by (auto simp: usable_def to_policy_def split: option.splits)
  next
    case False
    with Cons.IH [of seen] show ?thesis
      by (auto simp: usable_def split: option.splits)
  qed
qed

lemma set_first_occurrences: "set (first_occurrences rs) \<subseteq> set rs"
  by (induction rs rule: first_occurrences.induct) auto

lemma distinct_first_occurrences: "distinct (map hit_url (first_occurrences rs))"
proof (induction rs rule: first_occurrences.induct)
  case 1
  show ?case by simp
next
  case (2 r rs)
  have "hit_url r \<notin> hit_url ` set (first_occurrences (filter (\<lambda>q. hit_url q \<noteq> hit_url r) rs))"
    using set_first_occurrences [of "filter (\<lambda>q. hit_url q \<noteq> hit_url r) rs"] by auto
  with 2 show ?case by simp
qed

lemma url_to_policy: "url (to_policy ex ds r) = the (hit_url r)"
  by (simp add: to_policy_def)

lemma distinct_urls_kept:
  "distinct (map url (map (to_policy ex ds) (first_occurrences (filter usable rs))))"
proof -
  let ?ks = "first_occurrences (filter usable rs)"
  have sub: "set ?ks \<subseteq> {r. usable r}"
    using set_first_occurrences [of "filter usable rs"] by auto
  have "distinct (map the (map hit_url ?ks))"
  proof (rule distinct_map [THEN iffD2], intro conjI)
    show "distinct (map hit_url ?ks)" by (rule distinct_first_occurrences)
    show "inj_on the (set (map hit_url ?ks))"
    proof (rule inj_onI)
      fix a b assume "a \<in> set (map hit_url ?ks)" "b \<in> set (map hit_url ?ks)" "the a = the b"
      moreover from this sub have "a \<noteq> None" "b \<noteq> None"
        by (auto simp: usable_def split: option.splits)
      ultimately show "a = b" by auto
    qed
  qed
  then show ?thesis by (simp add: comp_def url_to_policy)
qed

lemma sorted_by_score: "sorted_wrt (\<lambda>a b. relevance_score b \<le> relevance_score a) (sort_by_score ps)"
proof -
  have "sorted (map (\<lambda>x. - relevance_score x) (sort_by_score ps))"
    unfolding sort_by_score_def by (rule sorted_sort_key)
  then show ?thesis by (simp add: sorted_map)
qed

lemma sort_by_score_stable:
  "filter (\<lambda>p. relevance_score p = k) (sort_by_score ps) = filter (\<lambda>p. relevance_score p = k) ps"
proof -
  have "filter (\<lambda>p. - relevance_score p = - k) (sort_by_score ps) =
        filter (\<lambda>p. - relevance_score p = - k) ps"
    unfolding sort_by_score_def by (rule sort_key_stable)
  then show ?thesis by simp
qed

lemma mset_sort_by_score: "mset (sort_by_score ps) = mset ps"
  by (simp add: sort_by_score_def)

text \<open>
  C8. For every upstream results list, the policies returned are the entries that have
  a url and a title with every later entry of an already kept url removed (the first
  occurrence of each url survives), sorted by relevance score: their urls are pairwise
  different, the scores are non-increasing, and the policies of any one score stand in
  their upstream order (the sort is stable).
\<close>

theorem policies_deduplicated_and_ranked:
  "ranked_policies ex ds rs =
     sort_by_score (map (to_policy ex ds) (first_occurrences (filter usable rs))) \<and>
   distinct (map url (ranked_policies ex ds rs)) \<and>
   sorted_wrt (\<lambda>a b. relevance_score b \<le> relevance_score a) (ranked_policies ex ds rs) \<and>
   (\<forall>k. filter (\<lambda>p. relevance_score p = k) (ranked_policies ex ds rs) =
        filter (\<lambda>p. relevance_score p = k)
          (map (to_policy ex ds) (first_occurrences (filter usable rs))))"
proof -
  let ?kept = "map (to_policy ex ds) (first_occurrences (filter usable rs))"
  have eq: "ranked_policies ex ds rs = sort_by_score ?kept"
    by (simp add: ranked_policies_def collect_results_first_occurrences)
  have "mset (map url (sort_by_score ?kept)) = mset (map url ?kept)"
    by (simp only: mset_map mset_sort_by_score)
  then have "distinct (map url (sort_by_score ?kept))"
    using distinct_urls_kept [of ex ds rs] by (metis mset_eq_imp_distinct_iff)
  with eq show ?thesis
    by (simp add: sorted_by_score sort_by_score_stable)
qed

text \<open>
  C1. The chunks are not always in the order of the text, nor within \<open>max_length\<close>.
  A sentence longer than \<open>max_length\<close> is split into chunks that are appended at once,
  while the shorter sentences before it still wait in \<open>current_chunk\<close>: with limit 5,
  "ab; cdefgh ijk" gives "cdefgh.", "ijk.", "ab.". And \<open>current_length\<close> counts neither
  the joining spaces nor the final period: with limit 5, "aa; bb" gives the one chunk
  "aa bb." of 6 characters, and with the default limit 400 two sentences of 200
  characters give one chunk of 402, though no word is longer than the limit.
\<close>

theorem split_into_chunks_order_and_length:
  "split_into_chunks ''ab; cdefgh ijk'' 5 = [''cdefgh.'', ''ijk.'', ''ab.''] \<and>
   split_into_chunks ''aa; bb'' 5 = [''aa bb.''] \<and>
   split_into_chunks (replicate 200 (CHR ''a'') @ ''; '' @ replicate 200 (CHR ''b''))
     MAX_CHUNK_SIZE =
     [replicate 200 (CHR ''a'') @ '' '' @ replicate 200 (CHR ''b'') @ ''.''] \<and>
   length (replicate 200 (CHR ''a'') @ '' '' @ replicate 200 (CHR ''b'') @ ''.'') = 402"
  by code_simp

lemma is_space_newline [simp]: "is_space newline"
  by (simp add: is_space_def newline_def)

lemma is_space_blank [simp]: "is_space CHR '' ''"
  by (simp add: is_space_def)

lemma take_ws_len: "take (ws_len s) s = takeWhile is_space s"
  unfolding ws_len_def by (rule takeWhile_eq_take [symmetric])

lemma match_delim_chars:
  assumes "match_delim prev s = Some n" and "c \<in> set (take n s)"
  shows "is_space c \<or> is_delim c"
proof (cases "look_behind prev \<and> 0 < ws_len s")
  case True
  with assms(1) have "n = ws_len s"
    by (simp add: match_delim_def)
  with assms(2) have "c \<in> set (takeWhile is_space s)"
    by (simp only: take_ws_len)
  then show ?thesis by (auto dest: set_takeWhileD)
next
  case False
  with assms obtain x r where s: "s = x # r"
    by (cases s) (auto simp: match_delim_def)
  have ws: "\<And>y. y \<in> set (take (ws_len r) r) \<Longrightarrow> is_space y"
    by (auto simp: take_ws_len dest: set_takeWhileD)
  have nl: "\<And>y. y \<in> set (takeWhile (\<lambda>x. x = newline) s) \<Longrightarrow> is_space y"
    by (auto dest: set_takeWhileD)
  from assms False s consider
      (punct) "is_delim x" "n = 1 + ws_len r"
    | (lines) "n = length (takeWhile (\<lambda>x. x = newline) s)"
    | (blank) "is_delim x" "prefix '' '' r" "n = 2"
    by (auto simp: match_delim_def is_delim_def split: if_splits)
  then show ?thesis
  proof cases
    case punct
    with assms(2) s ws show ?thesis by auto
  next
    case lines
    with assms(2) have "c \<in> set (takeWhile (\<lambda>x. x = newline) s)"
      by (simp only: takeWhile_eq_take [symmetric])
    with nl show ?thesis by blast
  next
    case blank
    then obtain r' where "r = CHR '' '' # r'" by (auto simp: prefix_def)
    with blank assms(2) s show ?thesis by (auto simp: numeral_2_eq_2)
  qed
qed

lemma re_split_filter:
  assumes K: "\<And>c. is_space c \<or> is_delim c \<Longrightarrow> \<not> K c"
  shows "filter K (concat (re_split prev acc s)) = filter K (acc @ s)"
proof (induction prev acc s rule: re_split.induct)
  case (1 prev acc)
  show ?case by simp
next
  case (2 prev acc c cs)
  show ?case
  proof (cases "match_delim prev (c # cs)")
    case None
    with 2 show ?thesis by simp
  next
    case (Some n)
    have "filter K (take n (c # cs)) = []"
      using match_delim_chars [OF Some] K by (auto simp: filter_empty_conv)
    then have "filter K (c # cs) = filter K (drop n (c # cs))"
      by (metis append_Nil append_take_drop_id filter_append)
    with Some 2 show ?thesis by simp
  qed
qed

lemma re_split_subseq: "subseq (concat (re_split prev acc s)) (acc @ s)"
proof (induction prev acc s rule: re_split.induct)
  case (1 prev acc)
  show ?case by simp
next
  case (2 prev acc c cs)
  show ?case
  proof (cases "match_delim prev (c # cs)")
    case None
    with 2 show ?thesis by simp
  next
    case (Some n)
    with 2 have "subseq (concat (re_split (Some ((c # cs) ! (n - 1))) [] (drop n (c # cs))))
                   (drop n (c # cs))"
      by simp
    then have "subseq (concat (re_split (Some ((c # cs) ! (n - 1))) [] (drop n (c # cs))))
                 (take n (c # cs) @ drop n (c # cs))"
      by (rule subseq_drop_many)
    then have "subseq (concat (re_split (Some ((c # cs) ! (n - 1))) [] (drop n (c # cs)))) (c # cs)"
      by (simp only: append_take_drop_id)
    then have "subseq (acc @ concat (re_split (Some ((c # cs) ! (n - 1))) [] (drop n (c # cs))))
                 (acc @ c # cs)"
      by (simp only: subseq_append')
    with Some show ?thesis by simp
  qed
qed

lemma filter_dropWhile_disjoint:
  "(\<And>x. P x \<Longrightarrow> \<not> Q x) \<Longrightarrow> filter Q (dropWhile P xs) = filter Q xs"
  by (induction xs) auto

lemma filter_strip:
  assumes "\<And>c. is_space c \<Longrightarrow> \<not> Q c"
  shows "filter Q (strip s) = filter Q s"
proof -
  have "filter Q (strip s) = rev (filter Q (dropWhile is_space (rev (dropWhile is_space s))))"
    by (simp add: strip_def rev_filter)
  also have "\<dots> = rev (filter Q (rev (dropWhile is_space s)))"
    using assms by (simp add: filter_dropWhile_disjoint)
  also have "\<dots> = filter Q (dropWhile is_space s)"
    by (simp add: rev_filter [symmetric])
  also have "\<dots> = filter Q s"
    using assms by (simp add: filter_dropWhile_disjoint)
  finally show ?thesis .
qed

lemma non_whitespace_strip: "non_whitespace (strip s) = non_whitespace s"
  unfolding non_whitespace_def by (rule filter_strip) simp

lemma non_whitespace_Nil [simp]: "non_whitespace [] = []"
  by (simp add: non_whitespace_def)

lemma non_whitespace_append: "non_whitespace (xs @ ys) = non_whitespace xs @ non_whitespace ys"
  by (simp add: non_whitespace_def)

lemma non_whitespace_pieces:
  "non_whitespace (concat (map strip (filter (\<lambda>s. strip s \<noteq> []) ps))) = non_whitespace (concat ps)"
proof (induction ps)
  case Nil
  show ?case by simp
next
  case (Cons p ps)
  have "strip p = [] \<Longrightarrow> non_whitespace p = []"
    using non_whitespace_strip [of p] by simp
  with Cons show ?case
    by (simp add: non_whitespace_append non_whitespace_strip)
qed

lemma non_whitespace_newlines:
  "non_whitespace (map (\<lambda>c. if c = newline then CHR '' '' else c) s) = non_whitespace s"
  by (induction s) (auto simp: non_whitespace_def)

lemma non_whitespace_join: "non_whitespace (join '' '' xs) = non_whitespace (concat xs)"
  by (induction "'' ''" xs rule: join.induct) (simp_all add: non_whitespace_def)

lemma non_whitespace_words_acc:
  "non_whitespace (concat (words_acc acc s)) = non_whitespace acc @ non_whitespace s"
  by (induction s arbitrary: acc) (auto simp: non_whitespace_def)

lemma non_whitespace_split_ws: "non_whitespace (concat (split_ws s)) = non_whitespace s"
  by (simp add: split_ws_def non_whitespace_words_acc)

text \<open>
  The content of a list of chunks is what is left of them once the terminal period of
  each is dropped and white space is removed; the two loops only ever add the content
  of the words and sentences they consume.
\<close>

lemma content_split_words:
  "non_whitespace (concat (map butlast (split_words n ws chunks temp len))) =
     non_whitespace (concat (map butlast chunks)) @ non_whitespace (concat temp) @
     non_whitespace (concat ws)"
proof (induction ws arbitrary: chunks temp len)
  case Nil
  show ?case
    by (cases "temp = []") (simp_all add: non_whitespace_append non_whitespace_join)
next
  case (Cons w ws)
  show ?case
    by (cases "temp = []")
       (simp_all add: Cons.IH Let_def non_whitespace_append non_whitespace_join)
qed

lemma content_pack_short:
  assumes "\<forall>s \<in> set ss. int (length s) \<le> n"
  shows "non_whitespace (concat (map butlast (pack_sentences n ss chunks cur len))) =
     non_whitespace (concat (map butlast chunks)) @ non_whitespace (concat cur) @
     non_whitespace (concat ss)"
  using assms
proof (induction ss arbitrary: chunks cur len)
  case Nil
  show ?case
    by (cases "cur = []") (simp_all add: non_whitespace_append non_whitespace_join)
next
  case (Cons s ss)
  then have short: "\<not> int (length s) > n" and rest: "\<forall>s \<in> set ss. int (length s) \<le> n"
    by auto
  show ?case
    using short
    by (cases "cur = []")
       (simp_all add: Cons.IH [OF rest] Let_def non_whitespace_append non_whitespace_join)
qed

lemma content_pack_long:
  assumes "\<forall>s \<in> set ls. int (length s) > n"
  shows "\<exists>chunks'. pack_sentences n (ls @ ss) chunks [] 0 = pack_sentences n ss chunks' [] 0 \<and>
           non_whitespace (concat (map butlast chunks')) =
             non_whitespace (concat (map butlast chunks)) @ non_whitespace (concat ls)"
  using assms
proof (induction ls arbitrary: chunks)
  case Nil
  show ?case by (intro exI [of _ chunks]) simp
next
  case (Cons s ls)
  then have long: "int (length s) > n" and rest: "\<forall>s \<in> set ls. int (length s) > n"
    by auto
  let ?c1 = "split_words n (split_ws s) chunks [] 0"
  from Cons.IH [OF rest, of ?c1] obtain chunks' where
    c: "pack_sentences n (ls @ ss) ?c1 [] 0 = pack_sentences n ss chunks' [] 0"
       "non_whitespace (concat (map butlast chunks')) =
          non_whitespace (concat (map butlast ?c1)) @ non_whitespace (concat ls)"
    by blast
  have "non_whitespace (concat (map butlast ?c1)) =
          non_whitespace (concat (map butlast chunks)) @ non_whitespace s"
    by (simp add: content_split_words non_whitespace_split_ws)
  with c long show ?case
    by (intro exI [of _ chunks']) (simp add: non_whitespace_append)
qed

lemma content_split_into_chunks:
  assumes "sentences_of text0 = ls @ ss"
    and "\<forall>s \<in> set ls. int (length s) > n"
    and "\<forall>s \<in> set ss. int (length s) \<le> n"
  shows "non_whitespace (concat (map butlast (split_into_chunks text0 n))) =
           non_whitespace (concat (sentences_of text0))"
proof -
  from content_pack_long [OF assms(2), of ss "[]"] obtain chunks' where
    c: "pack_sentences n (ls @ ss) [] [] 0 = pack_sentences n ss chunks' [] 0"
       "non_whitespace (concat (map butlast chunks')) = non_whitespace (concat ls)"
    by auto
  have "non_whitespace (concat (map butlast (pack_sentences n ss chunks' [] 0))) =
          non_whitespace (concat (map butlast chunks')) @ non_whitespace (concat ss)"
    by (simp add: content_pack_short [OF assms(3)])
  with c assms(1) show ?thesis
    by (simp add: split_into_chunks_def non_whitespace_append)
qed

lemma flushed_period: "(join '' '' temp @ ''.'') \<noteq> [] \<and> last (join '' '' temp @ ''.'') = CHR ''.''"
  by simp

lemma flush_periods:
  assumes "\<forall>ch \<in> set chunks. ch \<noteq> [] \<and> last ch = CHR ''.''"
  shows "\<forall>ch \<in> set (if temp \<noteq> [] then chunks @ [join '' '' temp @ ''.''] else chunks).
           ch \<noteq> [] \<and> last ch = CHR ''.''"
proof (cases "temp = []")
  case True
  with assms show ?thesis by simp
next
  case False
  have "set (chunks @ [join '' '' temp @ ''.'']) = insert (join '' '' temp @ ''.'') (set chunks)"
    by simp
  with assms flushed_period [of temp] False show ?thesis
    by (simp only: if_True simp_thms ball_simps)
qed

lemma split_words_periods:
  assumes "\<forall>ch \<in> set chunks. ch \<noteq> [] \<and> last ch = CHR ''.''"
  shows "\<forall>ch \<in> set (split_words n ws chunks temp len). ch \<noteq> [] \<and> last ch = CHR ''.''"
  using assms
proof (induction ws arbitrary: chunks temp len)
  case Nil
  from flush_periods [OF Nil, of temp] show ?case by (simp only: split_words.simps)
next
  case (Cons w ws)
  show ?case
  proof (cases "len + (int (length w) + 1) > n")
    case True
    from Cons.IH [OF flush_periods [OF Cons.prems, of temp]] True show ?thesis
      by (simp only: split_words.simps Let_def if_True)
  next
    case False
    from Cons.IH [OF Cons.prems] False show ?thesis
      by (simp only: split_words.simps Let_def if_False)
  qed
qed

lemma pack_sentences_periods:
  assumes "\<forall>ch \<in> set chunks. ch \<noteq> [] \<and> last ch = CHR ''.''"
  shows "\<forall>ch \<in> set (pack_sentences n ss chunks cur len). ch \<noteq> [] \<and> last ch = CHR ''.''"
  using assms
proof (induction ss arbitrary: chunks cur len)
  case Nil
  from flush_periods [OF Nil, of cur] show ?case by (simp only: pack_sentences.simps)
next
  case (Cons s ss)
  show ?case
  proof (cases "int (length s) > n")
    case True
    from Cons.IH [OF split_words_periods [OF Cons.prems]] True show ?thesis
      by (simp only: pack_sentences.simps Let_def if_True)
  next
    case False
    note long = this
    show ?thesis
    proof (cases "len + int (length s) > n")
      case True
      from Cons.IH [OF flush_periods [OF Cons.prems, of cur]] long True show ?thesis
        by (simp only: pack_sentences.simps Let_def if_True if_False)
    next
      case False
      from Cons.IH [OF Cons.prems] long False show ?thesis
        by (simp only: pack_sentences.simps Let_def if_False)
    qed
  qed
qed

lemma non_whitespace_sentences:
  "non_whitespace (concat (sentences_of text0)) =
     non_whitespace (concat (re_split None []
       (strip (map (\<lambda>c. if c = newline then CHR '' '' else c) text0))))"
  by (simp add: sentences_of_def Let_def non_whitespace_pieces)

lemma non_whitespace_normalised:
  "non_whitespace (strip (map (\<lambda>c. if c = newline then CHR '' '' else c) text0)) =
     non_whitespace text0"
  by (simp add: non_whitespace_strip non_whitespace_newlines)

lemma sentences_subseq:
  "subseq (non_whitespace (concat (sentences_of text0))) (non_whitespace text0)"
proof -
  let ?t = "strip (map (\<lambda>c. if c = newline then CHR '' '' else c) text0)"
  have "subseq (concat (re_split None [] ?t)) ([] @ ?t)"
    by (rule re_split_subseq)
  then have "subseq (non_whitespace (concat (re_split None [] ?t))) (non_whitespace ?t)"
    by (simp add: non_whitespace_def)
  then show ?thesis
    by (simp only: non_whitespace_sentences non_whitespace_normalised)
qed

lemma sentences_keep_other_characters:
  "filter (\<lambda>c. \<not> is_delim c) (non_whitespace (concat (sentences_of text0))) =
     filter (\<lambda>c. \<not> is_delim c) (non_whitespace text0)"
proof -
  let ?t = "strip (map (\<lambda>c. if c = newline then CHR '' '' else c) text0)"
  let ?K = "\<lambda>c. \<not> is_space c \<and> \<not> is_delim c"
  have nw: "\<And>s. filter (\<lambda>c. \<not> is_delim c) (non_whitespace s) = filter ?K s"
    by (simp add: non_whitespace_def conj_commute)
  have "filter ?K (concat (re_split None [] ?t)) = filter ?K ([] @ ?t)"
    by (rule re_split_filter) auto
  then have "filter (\<lambda>c. \<not> is_delim c) (non_whitespace (concat (re_split None [] ?t))) =
             filter (\<lambda>c. \<not> is_delim c) (non_whitespace ?t)"
    by (simp add: nw)
  then show ?thesis
    by (simp only: non_whitespace_sentences non_whitespace_normalised)
qed

text \<open>
  C2, as stated, fails: the punctuation a delimiter begins with is consumed by the
  split and does not come back. "a; b" gives the one chunk "a b.", which has lost the
  semicolon.
\<close>

theorem delimiters_lost_counterexample:
  "split_into_chunks ''a; b'' 400 = [''a b.''] \<and>
   non_whitespace (concat (map butlast (split_into_chunks ''a; b'' 400))) = ''ab'' \<and>
   non_whitespace ''a; b'' = ''a;b'' \<and>
   non_whitespace (concat (map butlast (split_into_chunks ''a; b'' 400))) \<noteq> non_whitespace ''a; b''"
proof -
  have c: "split_into_chunks ''a; b'' 400 = [''a b.'']"
    by code_simp
  have l: "non_whitespace (concat (map butlast [''a b.''])) = ''ab''"
    by code_simp
  have r: "non_whitespace ''a; b'' = ''a;b''"
    by code_simp
  show ?thesis unfolding c l r by simp
qed


lemma delim_not_space: "is_delim c \<Longrightarrow> \<not> is_space c"
  by (auto simp: is_delim_def is_space_def)

lemma wcd_keep:
  "\<not> (is_delim c \<and> cs \<noteq> [] \<and> is_space (hd cs)) \<Longrightarrow>
     without_consumed_delims (c # cs) = c # without_consumed_delims cs"
  by (cases cs) auto

lemma wcd_drop:
  "is_delim c \<Longrightarrow> cs \<noteq> [] \<Longrightarrow> is_space (hd cs) \<Longrightarrow>
     without_consumed_delims (c # cs) = without_consumed_delims cs"
  by (cases cs) auto

lemma wcd_leading_space:
  assumes "\<forall>c \<in> set ws. is_space c"
  shows "non_whitespace (without_consumed_delims (ws @ r)) =
         non_whitespace (without_consumed_delims r)"
  using assms
proof (induction ws)
  case Nil
  show ?case by simp
next
  case (Cons w ws)
  then have w: "is_space w" and rest: "\<forall>c \<in> set ws. is_space c" by auto
  from w have "\<not> is_delim w" using delim_not_space by blast
  then have "without_consumed_delims (w # ws @ r) = w # without_consumed_delims (ws @ r)"
    by (intro wcd_keep) simp
  with w Cons.IH [OF rest] show ?case by (simp add: non_whitespace_def)
qed

lemma ws_len_pos: "0 < ws_len r \<Longrightarrow> r \<noteq> [] \<and> is_space (hd r)"
  by (cases r) (auto simp: ws_len_def split: if_splits)

lemma ws_len_pos_iff: "r \<noteq> [] \<Longrightarrow> is_space (hd r) \<Longrightarrow> 0 < ws_len r"
  by (cases r) (auto simp: ws_len_def)

lemma split_ws_run: "s = takeWhile is_space s @ drop (ws_len s) s"
  by (simp add: ws_len_def takeWhile_eq_take [symmetric] dropWhile_eq_drop [symmetric])

lemma match_delim_consumes:
  assumes "match_delim prev s = Some n"
  shows "non_whitespace (without_consumed_delims s) =
         non_whitespace (without_consumed_delims (drop n s))"
proof (cases "look_behind prev \<and> 0 < ws_len s")
  case True
  with assms have n: "n = ws_len s" by (simp add: match_delim_def)
  have "non_whitespace (without_consumed_delims (takeWhile is_space s @ drop (ws_len s) s)) =
        non_whitespace (without_consumed_delims (drop (ws_len s) s))"
    by (rule wcd_leading_space) (auto dest: set_takeWhileD)
  then show ?thesis unfolding n by (simp only: split_ws_run [symmetric])
next
  case False
  with assms obtain x r where s: "s = x # r"
    by (cases s) (auto simp: match_delim_def)
  from assms False s consider
      (punct) "is_delim x" "0 < ws_len r" "n = 1 + ws_len r"
    | (lines) "x = newline" "n = length (takeWhile (\<lambda>x. x = newline) s)"
    | (blank) "is_delim x" "prefix '' '' r" "n = 2"
    by (auto simp: match_delim_def is_delim_def split: if_splits)
  then show ?thesis
  proof cases
    case punct
    from punct(2) have r: "r \<noteq> []" "is_space (hd r)" using ws_len_pos by auto
    have "without_consumed_delims (x # r) = without_consumed_delims r"
      using punct(1) r by (rule wcd_drop)
    moreover have "non_whitespace (without_consumed_delims (takeWhile is_space r @ drop (ws_len r) r)) =
        non_whitespace (without_consumed_delims (drop (ws_len r) r))"
      by (rule wcd_leading_space) (auto dest: set_takeWhileD)
    then have "non_whitespace (without_consumed_delims r) =
        non_whitespace (without_consumed_delims (drop (ws_len r) r))"
      by (simp only: split_ws_run [symmetric])
    ultimately show ?thesis using s punct(3) by simp
  next
    case lines
    let ?k = "length (takeWhile (\<lambda>x. x = newline) s)"
    have "s = takeWhile (\<lambda>x. x = newline) s @ drop ?k s"
      by (simp add: takeWhile_eq_take [symmetric] dropWhile_eq_drop [symmetric])
    moreover have "non_whitespace (without_consumed_delims (takeWhile (\<lambda>x. x = newline) s @ drop ?k s)) =
        non_whitespace (without_consumed_delims (drop ?k s))"
      by (rule wcd_leading_space) (auto dest: set_takeWhileD)
    ultimately show ?thesis unfolding lines(2) by simp
  next
    case blank
    then obtain r' where r: "r = CHR '' '' # r'" by (auto simp: prefix_def)
    have "without_consumed_delims (x # r) = without_consumed_delims r"
      using blank(1) r by (intro wcd_drop) simp_all
    moreover have "non_whitespace (without_consumed_delims ([CHR '' ''] @ r')) =
        non_whitespace (without_consumed_delims r')"
      by (rule wcd_leading_space) simp
    ultimately show ?thesis using s r blank(3) by (simp add: numeral_2_eq_2)
  qed
qed

lemma match_delim_None:
  assumes "match_delim prev (c # cs) = None"
  shows "\<not> (is_delim c \<and> cs \<noteq> [] \<and> is_space (hd cs))"
proof
  assume a: "is_delim c \<and> cs \<noteq> [] \<and> is_space (hd cs)"
  then have "0 < ws_len cs" by (simp add: ws_len_pos_iff)
  with a assms show False
    by (auto simp: match_delim_def is_delim_def split: if_splits)
qed

lemma re_split_content:
  "non_whitespace (concat (re_split prev acc s)) =
     non_whitespace acc @ non_whitespace (without_consumed_delims s)"
proof (induction prev acc s rule: re_split.induct)
  case (1 prev acc)
  show ?case by simp
next
  case (2 prev acc c cs)
  show ?case
  proof (cases "match_delim prev (c # cs)")
    case None
    from match_delim_None [OF None]
    have "without_consumed_delims (c # cs) = c # without_consumed_delims cs"
      by (rule wcd_keep)
    with None 2 show ?thesis by (simp add: non_whitespace_def)
  next
    case (Some n)
    from match_delim_consumes [OF Some] Some 2 show ?thesis
      by (simp add: non_whitespace_append)
  qed
qed


lemma is_space_normalised:
  "is_space (if c = newline then CHR '' '' else c) = is_space c"
  by simp

lemma is_delim_normalised:
  "is_delim (if c = newline then CHR '' '' else c) = is_delim c"
  by (simp add: is_delim_def newline_def)

lemma dropWhile_normalised:
  "dropWhile is_space (map (\<lambda>c. if c = newline then CHR '' '' else c) s) =
     map (\<lambda>c. if c = newline then CHR '' '' else c) (dropWhile is_space s)"
  by (induction s) (simp_all only: list.map dropWhile.simps is_space_normalised if_distrib [of "map _"])

lemma strip_normalised:
  "strip (map (\<lambda>c. if c = newline then CHR '' '' else c) s) =
     map (\<lambda>c. if c = newline then CHR '' '' else c) (strip s)"
  by (simp only: strip_def dropWhile_normalised rev_map)

lemma wcd_normalised:
  "without_consumed_delims (map (\<lambda>c. if c = newline then CHR '' '' else c) s) =
     map (\<lambda>c. if c = newline then CHR '' '' else c) (without_consumed_delims s)"
proof (induction s rule: without_consumed_delims.induct)
  case 1
  show ?case by simp
next
  case (2 c)
  show ?case by simp
next
  case (3 c d cs)
  show ?case
  proof (cases "is_delim c \<and> is_space d")
    case True
    with 3 show ?thesis
      by (simp only: list.map without_consumed_delims.simps is_space_normalised
                     is_delim_normalised if_True simp_thms)
  next
    case False
    with 3 show ?thesis
      by (simp only: list.map without_consumed_delims.simps is_space_normalised
                     is_delim_normalised if_False simp_thms)
  qed
qed

lemma sentences_content:
  "non_whitespace (concat (sentences_of text0)) =
     non_whitespace (without_consumed_delims (strip text0))"
proof -
  have "non_whitespace (concat (sentences_of text0)) =
        non_whitespace (without_consumed_delims
          (strip (map (\<lambda>c. if c = newline then CHR '' '' else c) text0)))"
    by (simp add: non_whitespace_sentences re_split_content)
  then show ?thesis
    by (simp only: strip_normalised wcd_normalised non_whitespace_newlines)
qed

text \<open>
  C2, amended. Let no sentence longer than \<open>max_length\<close> come after a sentence that fits
  (the sentences are some over-long ones, then some that fit). Then every chunk ends
  with the period the splitter added, and the chunks without that period, concatenated
  and with white space removed, are exactly the characters of the stripped text that
  are not white space, in their order, except each \<open>.\<close>, \<open>?\<close>, \<open>!\<close> or \<open>;\<close> that is directly
  followed by white space: those delimiters are lost and nothing else is, nothing is
  added and nothing changes place.
\<close>

theorem chunks_preserve_content:
  assumes "sentences_of text0 = ls @ ss"
    and "\<forall>s \<in> set ls. int (length s) > max_length"
    and "\<forall>s \<in> set ss. int (length s) \<le> max_length"
  shows "(\<forall>ch \<in> set (split_into_chunks text0 max_length). ch \<noteq> [] \<and> last ch = CHR ''.'') \<and>
         non_whitespace (concat (map butlast (split_into_chunks text0 max_length))) =
           non_whitespace (without_consumed_delims (strip text0)) \<and>
         subseq (non_whitespace (concat (map butlast (split_into_chunks text0 max_length))))
           (non_whitespace text0) \<and>
         filter (\<lambda>c. \<not> is_delim c)
           (non_whitespace (concat (map butlast (split_into_chunks text0 max_length)))) =
         filter (\<lambda>c. \<not> is_delim c) (non_whitespace text0)"
proof -
  have periods: "\<forall>ch \<in> set (split_into_chunks text0 max_length). ch \<noteq> [] \<and> last ch = CHR ''.''"
    unfolding split_into_chunks_def by (rule pack_sentences_periods) simp
  have eq: "non_whitespace (concat (map butlast (split_into_chunks text0 max_length))) =
            non_whitespace (concat (sentences_of text0))"
    using assms by (rule content_split_into_chunks)
  have exact: "non_whitespace (concat (map butlast (split_into_chunks text0 max_length))) =
               non_whitespace (without_consumed_delims (strip text0))"
    unfolding eq by (rule sentences_content)
  have sub: "subseq (non_whitespace (concat (map butlast (split_into_chunks text0 max_length))))
               (non_whitespace text0)"
    unfolding eq by (rule sentences_subseq)
  have keep: "filter (\<lambda>c. \<not> is_delim c)
                (non_whitespace (concat (map butlast (split_into_chunks text0 max_length)))) =
              filter (\<lambda>c. \<not> is_delim c) (non_whitespace text0)"
    unfolding eq by (rule sentences_keep_other_characters)
  from periods exact sub keep show ?thesis by (intro conjI)
qed

theorem chunks_preserve_content_witness:
  "split_into_chunks ''x.y cdefgh; ab'' 5 = [''x.y.'', ''cdefgh.'', ''ab.''] \<and>
   non_whitespace (without_consumed_delims (strip ''x.y cdefgh; ab'')) = ''x.ycdefghab'' \<and>
   non_whitespace (concat (map butlast [''x.y.'', ''cdefgh.'', ''ab.''])) = ''x.ycdefghab''"
proof -
  have s: "sentences_of ''x.y cdefgh; ab'' = [''x.y cdefgh''] @ [''ab'']"
    by code_simp
  have l: "\<forall>s \<in> set [''x.y cdefgh'']. int (length s) > 5" by simp
  have r: "\<forall>s \<in> set [''ab'']. int (length s) \<le> 5" by simp
  have c: "split_into_chunks ''x.y cdefgh; ab'' 5 = [''x.y.'', ''cdefgh.'', ''ab.'']"
    by code_simp
  have b: "non_whitespace (concat (map butlast [''x.y.'', ''cdefgh.'', ''ab.''])) = ''x.ycdefghab''"
    by code_simp
  from chunks_preserve_content [OF s l r]
  have "non_whitespace (concat (map butlast [''x.y.'', ''cdefgh.'', ''ab.''])) =
        non_whitespace (without_consumed_delims (strip ''x.y cdefgh; ab''))"
    unfolding c by blast
  with b c show ?thesis by (simp only: simp_thms)
qed

lemma timeout_in_range_unless_nan:
  assumes "t \<noteq> Some NaN"
  shows "\<exists>x. timeout (mk_AnalyzeRequest tp t) = Finite x \<and> 1 \<le> x \<and> x \<le> 55"
proof (cases t)
  case None
  then show ?thesis by (simp add: mk_AnalyzeRequest_def DEFAULT_TIMEOUT_def)
next
  case (Some v)
  with assms have "v \<noteq> NaN" by simp
  then show ?thesis
    unfolding Some
    by (cases v)
       (auto simp: mk_AnalyzeRequest_def validate_timeout_def MAX_TIMEOUT_def DEFAULT_TIMEOUT_def)
qed

text \<open>
  C10. A timeout that is NaN passes validation unchanged: both comparisons are false
  for NaN, so the validator returns it, and the effective timeout is then no number at
  all, let alone one in [1, 55]. (For every other supplied value, and for the default,
  the effective timeout does lie in [1, 55], as the lemma above says.)
\<close>

theorem nan_timeout_passes_validation:
  "validate_timeout NaN = NaN \<and>
   timeout (mk_AnalyzeRequest tp (Some NaN)) = NaN \<and>
   (\<forall>x. timeout (mk_AnalyzeRequest tp (Some NaN)) \<noteq> Finite x)"
  by (simp add: mk_AnalyzeRequest_def validate_timeout_def)

lemma attempt_unbound: "attempt None out = Inl NameError"
  by (simp add: attempt_def)

lemma make_api_request_unbound: "make_api_request None upstream = (Inl NameError, 1, [])"
proof -
  have "MAX_RETRIES - 1 = Suc (Suc 0)" by (simp add: MAX_RETRIES_def)
  then show ?thesis
    by (simp add: make_api_request_def attempt_unbound retry_if_exception_type_def)
qed

lemma bound_failures_are_retried:
  assumes "attempt (Some t) (upstream 1) = Inl (HTTPException c1 d1)"
    and "attempt (Some t) (upstream 2) = Inl (HTTPException c2 d2)"
    and "attempt (Some t) (upstream 3) = Inl (HTTPException c3 d3)"
  shows "make_api_request (Some t) upstream = (Inl (RetryError (HTTPException c3 d3)), 3, [2, 2])"
proof -
  let ?call = "\<lambda>n. attempt (Some t) (upstream n)"
  have r: "\<And>c d. retry_if_exception_type (HTTPException c d)"
    by (simp add: retry_if_exception_type_def)
  have third: "retry_from 0 3 ?call = (Inl (RetryError (HTTPException c3 d3)), 3, [])"
    using assms(3) r by simp
  have "retry_from (Suc 0) 2 ?call =
          (Inl (RetryError (HTTPException c3 d3)), 3, [wait_exponential 2])"
    using assms(2) r third by (simp add: eval_nat_numeral)
  then have "retry_from (Suc (Suc 0)) 1 ?call =
               (Inl (RetryError (HTTPException c3 d3)), 3, [wait_exponential 1, wait_exponential 2])"
    using assms(1) r by (simp add: eval_nat_numeral)
  moreover have "MAX_RETRIES - 1 = Suc (Suc 0)" by (simp add: MAX_RETRIES_def)
  moreover have "wait_exponential 1 = 2" "wait_exponential 2 = 2"
    by (simp_all add: wait_exponential_def)
  ultimately show ?thesis by (simp add: make_api_request_def)
qed

lemma attempt_404:
  "attempt (Some t) (Responded \<lparr>status_code = 404, body_text = ''Not Found'', body_json = NotJson\<rparr>) =
     Inl (HTTPException 404
       (Text ''The API service is currently unavailable. Please try again later.''))"
proof -
  have cf: "\<not> is_cloudflare_challenge ''Not Found''"
    by code_simp
  then show ?thesis by (simp add: attempt_def handle_http_error_def)
qed

text \<open>
  C4. As the module stands, \<open>make_api_request\<close> never retries anything: reading the
  unbound \<open>REQUEST_TIMEOUT\<close> raises \<open>NameError\<close> in the first attempt, before a request is
  sent, whatever the upstream would have answered, a transient failure included; one
  attempt is made and nothing is slept. And once the name is bound, the decorator
  retries on the class of the exception, so a 404 is retried like a 503: three
  attempts, waits of 2 and 2 seconds, then \<open>RetryError\<close>. \<open>should_retry_error\<close>, which
  tells the transient statuses from the others, is never called.
\<close>

theorem make_api_request_never_retries:
  "make_api_request REQUEST_TIMEOUT upstream = (Inl NameError, 1, []) \<and>
   make_api_request (Some t)
     (\<lambda>n. Responded \<lparr>status_code = 404, body_text = ''Not Found'', body_json = NotJson\<rparr>) =
     (Inl (RetryError (HTTPException 404
        (Text ''The API service is currently unavailable. Please try again later.''))), 3, [2, 2]) \<and>
   \<not> should_retry_error (HTTPException 404
        (Text ''The API service is currently unavailable. Please try again later.''))"
proof -
  have a: "make_api_request REQUEST_TIMEOUT upstream = (Inl NameError, 1, [])"
    unfolding REQUEST_TIMEOUT_def by (rule make_api_request_unbound)
  have b: "make_api_request (Some t)
     (\<lambda>n. Responded \<lparr>status_code = 404, body_text = ''Not Found'', body_json = NotJson\<rparr>) =
     (Inl (RetryError (HTTPException 404
        (Text ''The API service is currently unavailable. Please try again later.''))), 3, [2, 2])"
    by (rule bound_failures_are_retried) (rule attempt_404)+
  have c: "\<not> should_retry_error (HTTPException 404
        (Text ''The API service is currently unavailable. Please try again later.''))"
    by (simp add: should_retry_error_def)
  from a b c show ?thesis by (intro conjI)
qed

lemma process_chunk_unbound:
  "process_chunk None upstream content_of chunk i n = Inl NameError"
  by (simp add: process_chunk_def make_api_request_unbound)

lemma first_error_replicate:
  "first_error (replicate k (Inl e)) = (if k = 0 then None else Some e)"
  by (cases k) simp_all

lemma all_results_replicate: "0 < k \<Longrightarrow> all_results (replicate k (Inl e)) = Inl e"
  by (cases k) simp_all

lemma gather_all_fail:
  assumes "0 < k"
  shows "gather completion (replicate k (Inl e)) = Inl e"
proof -
  let ?sel = "filter (\<lambda>i. i < length (replicate k (Inl e :: exn + 'a))) completion"
  have "map (\<lambda>i. replicate k (Inl e :: exn + 'a) ! i) ?sel = replicate (length ?sel) (Inl e)"
    by (rule nth_equalityI) (auto dest: nth_mem)
  then show ?thesis
    using assms by (simp add: gather_def first_error_replicate all_results_replicate)
qed

text \<open>
  C5. As the module stands, no per-chunk result is ever produced: every
  \<open>process_chunk\<close> raises \<open>NameError\<close> (the unbound \<open>REQUEST_TIMEOUT\<close>), so the dispatch of
  one or more chunks raises \<open>NameError\<close> and the dispatch of no chunk raises
  \<open>IndexError\<close>, whatever the upstream does and in whatever order the tasks finish.
\<close>

theorem chunk_results_never_produced:
  "chunk_results REQUEST_TIMEOUT upstream content_of completion process_chunks =
     Inl (if process_chunks = [] then IndexError else NameError)"
proof (cases "length process_chunks > 1")
  case True
  have "map (\<lambda>(i, chunk). process_chunk None upstream content_of chunk i (length process_chunks))
          (enumerate 0 process_chunks) =
        replicate (length process_chunks) (Inl NameError)"
    by (rule nth_equalityI) (simp_all add: process_chunk_unbound case_prod_beta)
  with True show ?thesis
    by (auto simp: chunk_results_def REQUEST_TIMEOUT_def Let_def gather_all_fail)
next
  case False
  then show ?thesis
    by (cases process_chunks)
       (simp_all add: chunk_results_def REQUEST_TIMEOUT_def process_chunk_unbound)
qed


text \<open>
  With the name bound and every request answered, the dispatch does give one result per
  chunk, in ascending order of \<open>chunk_index\<close>, the same for every order of completion.
\<close>

lemma process_chunk_index:
  "process_chunk (Some t) upstream content_of chunk i n = Inr r \<Longrightarrow> chunk_index r = i"
  by (auto simp: process_chunk_def split: sum.splits)

lemma all_results_Inr: "all_results (map Inr vs) = Inr vs"
  by (induction vs) auto

lemma first_error_Inr: "set ts \<subseteq> range Inr \<Longrightarrow> first_error ts = None"
  by (induction ts rule: first_error.induct) auto

lemma gather_all_succeed: "gather completion (map Inr vs) = Inr vs"
proof -
  have "first_error (map (\<lambda>i. map Inr vs ! i) (filter (\<lambda>i. i < length (map Inr vs)) completion)) = None"
    by (rule first_error_Inr) auto
  then show ?thesis by (simp add: gather_def all_results_Inr)
qed

lemma bound_chunk_results_sorted:
  assumes "process_chunks \<noteq> []"
    and "\<forall>i < length process_chunks.
           process_chunk (Some t) upstream content_of (process_chunks ! i) i (length process_chunks) = Inr (res i)"
  shows "chunk_results (Some t) upstream content_of completion process_chunks
           = Inr (map res [0..<length process_chunks]) \<and>
         length (map res [0..<length process_chunks]) = length process_chunks \<and>
         map chunk_index (map res [0..<length process_chunks]) = [0..<length process_chunks]"
proof -
  let ?n = "length process_chunks"
  let ?rs = "map res [0..<?n]"
  have idx: "map chunk_index ?rs = [0..<?n]"
  proof -
    have "\<And>i. i < ?n \<Longrightarrow> chunk_index (res i) = i"
      using assms(2) process_chunk_index by blast
    then have "map (\<lambda>i. chunk_index (res i)) [0..<?n] = map (\<lambda>i. i) [0..<?n]"
      by (intro map_cong) auto
    then show ?thesis by (simp add: comp_def)
  qed
  have tasks: "map (\<lambda>(i, chunk). process_chunk (Some t) upstream content_of chunk i ?n)
                 (enumerate 0 process_chunks) = map Inr ?rs"
  proof (rule nth_equalityI)
    show "length (map (\<lambda>(i, chunk). process_chunk (Some t) upstream content_of chunk i ?n)
                    (enumerate 0 process_chunks)) = length (map Inr ?rs)"
      by simp
  next
    fix i
    assume "i < length (map (\<lambda>(i, chunk). process_chunk (Some t) upstream content_of chunk i ?n)
                         (enumerate 0 process_chunks))"
    then have i: "i < ?n" by simp
    then have "enumerate 0 process_chunks ! i = (i, process_chunks ! i)"
      by (simp add: nth_enumerate_eq)
    with i assms(2) show "map (\<lambda>(i, chunk). process_chunk (Some t) upstream content_of chunk i ?n)
                            (enumerate 0 process_chunks) ! i = map Inr ?rs ! i"
      by simp
  qed
  have sorted_rs: "sort_key chunk_index ?rs = ?rs"
  proof (rule sort_key_id_if_sorted)
    show "sorted (map chunk_index ?rs)" unfolding idx by simp
  qed
  have "chunk_results (Some t) upstream content_of completion process_chunks = Inr ?rs"
  proof (cases "?n > 1")
    case True
    then show ?thesis
      unfolding chunk_results_def Let_def tasks gather_all_succeed
      using sorted_rs by simp
  next
    case False
    with assms(1) obtain c where c: "process_chunks = [c]"
      by (cases process_chunks) auto
    with assms(2) have "process_chunk (Some t) upstream content_of c 0 1 = Inr (res 0)" by simp
    with c show ?thesis by (simp add: chunk_results_def)
  qed
  with idx show ?thesis by simp
qed

lemma bound_chunk_results_example:
  "chunk_results (Some 30)
     (\<lambda>p n. Responded \<lparr>status_code = 200, body_text = p, body_json = OtherJson\<rparr>)
     (\<lambda>r. Inr (body_text r)) [2, 0, 1] [''a.'', ''b.'', ''c.''] =
   Inr [\<lparr>chunk_index = 0, analysis = user_prompt ''a.'' 0 3\<rparr>,
        \<lparr>chunk_index = 1, analysis = user_prompt ''b.'' 1 3\<rparr>,
        \<lparr>chunk_index = 2, analysis = user_prompt ''c.'' 2 3\<rparr>]"
proof -
  let ?up = "\<lambda>p (n::nat). Responded \<lparr>status_code = 200, body_text = p, body_json = OtherJson\<rparr>"
  let ?co = "\<lambda>r. Inr (body_text r) :: exn + string"
  let ?cs = "[''a.'', ''b.'', ''c.'']"
  let ?res = "\<lambda>i. \<lparr>chunk_index = i, analysis = user_prompt (?cs ! i) i (length ?cs)\<rparr>"
  have ok: "\<And>p. make_api_request (Some 30) (?up p) =
              (Inr \<lparr>status_code = 200, body_text = p, body_json = OtherJson\<rparr>, 1, [])"
    by (simp add: make_api_request_def MAX_RETRIES_def eval_nat_numeral attempt_def)
  have pc: "\<And>c i n. process_chunk (Some 30) ?up ?co c i n =
              Inr \<lparr>chunk_index = i, analysis = user_prompt c i n\<rparr>"
    by (simp add: process_chunk_def ok)
  have a1: "?cs \<noteq> []" by simp
  have a2: "\<forall>i < length ?cs. process_chunk (Some 30) ?up ?co (?cs ! i) i (length ?cs) = Inr (?res i)"
    by (intro allI impI) (rule pc)
  have upt: "[0..<3] = [0, 1, 2]" by (simp add: upt_rec)
  from bound_chunk_results_sorted [OF a1 a2, of "[2, 0, 1]"]
  show ?thesis by (simp add: upt numeral_3_eq_3 numeral_2_eq_2)
qed

end
